theory Spec2Isabelle
  imports Main "HOL-Library.Sublist"
begin

section \<open>Python strings\<close>

text \<open>
  A Python \<open>str\<close> is modelled as a HOL \<open>string\<close>. A HOL character is one code point
  below U+0100, so the model covers the texts made of such code points. On them the
  Unicode classes Python consults are the finite sets below: the decimal digits (what
  \<open>\d\<close> matches in a \<open>str\<close> pattern) are \<open>0\<close> to \<open>9\<close>; the white space of
  \<open>str.strip()\<close> and \<open>str.split()\<close> is U+0009 to U+000D, U+001C to U+0020, U+0085 and
  U+00A0; \<open>str.lower()\<close> maps \<open>A\<close>-\<open>Z\<close> and the capital letters U+00C0 to U+00DE
  (U+00D7, the multiplication sign, is no letter) to their small forms.
\<close>

definition isdigit :: "char \<Rightarrow> bool" where
  "isdigit c \<longleftrightarrow> c \<in> set ''0123456789''"

definition whitespace :: "char list" where
  "whitespace = [CHR 0x09, CHR 0x0A, CHR 0x0B, CHR 0x0C, CHR 0x0D,
                 CHR 0x1C, CHR 0x1D, CHR 0x1E, CHR 0x1F, CHR 0x20, CHR 0x85, CHR 0xA0]"

definition isspace :: "char \<Rightarrow> bool" where
  "isspace c \<longleftrightarrow> c \<in> set whitespace"

definition capitals :: "char list" where
  "capitals = ''ABCDEFGHIJKLMNOPQRSTUVWXYZ'' @
     [CHR 0xC0, CHR 0xC1, CHR 0xC2, CHR 0xC3, CHR 0xC4, CHR 0xC5, CHR 0xC6, CHR 0xC7,
      CHR 0xC8, CHR 0xC9, CHR 0xCA, CHR 0xCB, CHR 0xCC, CHR 0xCD, CHR 0xCE, CHR 0xCF,
      CHR 0xD0, CHR 0xD1, CHR 0xD2, CHR 0xD3, CHR 0xD4, CHR 0xD5, CHR 0xD6,
      CHR 0xD8, CHR 0xD9, CHR 0xDA, CHR 0xDB, CHR 0xDC, CHR 0xDD, CHR 0xDE]"

definition smalls :: "char list" where
  "smalls = ''abcdefghijklmnopqrstuvwxyz'' @
     [CHR 0xE0, CHR 0xE1, CHR 0xE2, CHR 0xE3, CHR 0xE4, CHR 0xE5, CHR 0xE6, CHR 0xE7,
      CHR 0xE8, CHR 0xE9, CHR 0xEA, CHR 0xEB, CHR 0xEC, CHR 0xED, CHR 0xEE, CHR 0xEF,
      CHR 0xF0, CHR 0xF1, CHR 0xF2, CHR 0xF3, CHR 0xF4, CHR 0xF5, CHR 0xF6,
      CHR 0xF8, CHR 0xF9, CHR 0xFA, CHR 0xFB, CHR 0xFC, CHR 0xFD, CHR 0xFE]"

definition lower_char :: "char \<Rightarrow> char" where
  "lower_char c = (case map_of (zip capitals smalls) c of Some d \<Rightarrow> d | None \<Rightarrow> c)"

text \<open>\<open>s.lower()\<close>\<close>

definition py_lower :: "string \<Rightarrow> string" where
  "py_lower s = map lower_char s"

text \<open>\<open>s.strip()\<close>: white space is removed at both ends.\<close>

definition py_strip :: "string \<Rightarrow> string" where
  "py_strip s = rev (dropWhile isspace (rev (dropWhile isspace s)))"

text \<open>
  \<open>s.split()\<close>: the maximal runs of characters that are no white space, in order.
  The scan carries the word read so far, as CPython's does.
\<close>

fun split_words :: "string \<Rightarrow> string \<Rightarrow> string list" where
  "split_words w [] = (if w = [] then [] else [w])"
| "split_words w (c # cs) =
     (if isspace c then (if w = [] then split_words [] cs else w # split_words [] cs)
      else split_words (w @ [c]) cs)"

definition py_split :: "string \<Rightarrow> string list" where
  "py_split s = split_words [] s"

text \<open>\<open>s.split(sep)\<close> for a separator of one character: never the empty list.\<close>

fun py_split_on :: "char \<Rightarrow> string \<Rightarrow> string list" where
  "py_split_on sep [] = [[]]"
| "py_split_on sep (c # cs) =
     (if c = sep then [] # py_split_on sep cs
      else (case py_split_on sep cs of
              [] \<Rightarrow> [[c]]
            | l # ls \<Rightarrow> (c # l) # ls))"

text \<open>\<open>sep.join(parts)\<close>\<close>

fun py_join :: "string \<Rightarrow> string list \<Rightarrow> string" where
  "py_join sep [] = []"
| "py_join sep [x] = x"
| "py_join sep (x # y # ys) = x @ sep @ py_join sep (y # ys)"

section \<open>Python values, exceptions\<close>

text \<open>
  A posting record is a \<open>Dict[str, Any]\<close>. Of a value the module uses its truth value,
  its \<open>str()\<close>, its string methods and whether \<open>re.search\<close> accepts it. \<open>PStr\<close> is a
  \<open>str\<close>, \<open>PNone\<close> is \<open>None\<close>, and \<open>PObj b s\<close> is any other object (a number, a
  boolean, a container) with truth value \<open>b\<close> and \<open>str()\<close> image \<open>s\<close>: it has no
  \<open>strip\<close> method and is no subject for a regular expression.
\<close>

datatype pyval = PNone | PStr string | PObj bool string

text \<open>
  The exceptions of the model: those of \<open>requests\<close> that the fetcher names
  (\<open>Timeout\<close> is a \<open>RequestException\<close>; \<open>RequestException\<close> below stands for the ones
  that are no \<open>Timeout\<close>), the two that ill-typed record fields raise, \<open>IndexError\<close>,
  and \<open>OtherError\<close> for every further subclass of \<open>Exception\<close>.
\<close>

datatype exn = Timeout | RequestException | AttributeError | TypeError | IndexError | OtherError

definition truthy :: "pyval \<Rightarrow> bool" where
  "truthy v = (case v of PNone \<Rightarrow> False | PStr s \<Rightarrow> s \<noteq> [] | PObj b s \<Rightarrow> b)"

definition py_str :: "pyval \<Rightarrow> string" where
  "py_str v = (case v of PNone \<Rightarrow> ''None'' | PStr s \<Rightarrow> s | PObj b s \<Rightarrow> s)"

text \<open>\<open>a or b\<close>\<close>

definition py_or :: "pyval \<Rightarrow> pyval \<Rightarrow> pyval" where
  "py_or a b = (if truthy a then a else b)"

type_synonym dict = "string \<rightharpoonup> pyval"

text \<open>\<open>d.get(key, default)\<close>\<close>

definition dict_get :: "dict \<Rightarrow> string \<Rightarrow> pyval \<Rightarrow> pyval" where
  "dict_get d k dflt = (case d k of None \<Rightarrow> dflt | Some v \<Rightarrow> v)"

section \<open>Identifier extractor\<close>

text \<open>
  Each of the four patterns is a literal followed by the group \<open>(\d+)\<close>, and the
  literals hold no character that is special in a regular expression. \<open>match_at lit s\<close>
  is a match that starts at the head of \<open>s\<close>: the literal, then the longest run of
  digits, which must not be empty; its value is the group. \<open>re_search\<close> is
  \<open>re.search\<close>: the match at the leftmost position that has one.
\<close>

definition match_at :: "string \<Rightarrow> string \<Rightarrow> string option" where
  "match_at lit s =
     (if prefix lit s
      then (let ds = takeWhile isdigit (drop (length lit) s)
            in if ds = [] then None else Some ds)
      else None)"

fun re_search :: "string \<Rightarrow> string \<Rightarrow> string option" where
  "re_search lit [] = match_at lit []"
| "re_search lit (c # cs) =
     (case match_at lit (c # cs) of
        Some ds \<Rightarrow> Some ds
      | None \<Rightarrow> re_search lit cs)"

text \<open>The list \<open>patterns\<close>, each entry the literal in front of \<open>(\d+)\<close>.\<close>

definition patterns :: "string list" where
  "patterns = [''/jobs/view/'', ''/jobs/'', ''currentJobId='', ''jobId='']"

text \<open>The loop \<open>for pattern in patterns\<close>: the group of the first pattern that matches.\<close>

fun first_match :: "string list \<Rightarrow> string \<Rightarrow> string option" where
  "first_match [] job_url = None"
| "first_match (pattern # rest) job_url =
     (case re_search pattern job_url of
        Some g \<Rightarrow> Some g
      | None \<Rightarrow> first_match rest job_url)"

text \<open>
  \<open>extract_linkedin_job_id\<close>. A falsy argument returns \<open>None\<close>; \<open>re.search\<close> raises
  \<open>TypeError\<close> on a truthy argument that is no string.
\<close>

definition extract_linkedin_job_id :: "pyval \<Rightarrow> exn + string option" where
  "extract_linkedin_job_id job_url =
     (if \<not> truthy job_url then Inr None
      else (case job_url of
              PStr s \<Rightarrow> Inr (first_match patterns s)
            | _ \<Rightarrow> Inl TypeError))"

text \<open>
  What the specification says of a pattern, in its own words: a URL matches
  \<open>lit<digits>\<close> when the literal occurs in it with a digit behind; the digit sequence
  of the match is the whole run of digits behind the leftmost such occurrence.
\<close>

definition matches :: "string \<Rightarrow> string \<Rightarrow> bool" where
  "matches lit url \<longleftrightarrow> (\<exists>pre d post. url = pre @ lit @ d # post \<and> isdigit d)"

definition digit_capture :: "string \<Rightarrow> string \<Rightarrow> string \<Rightarrow> bool" where
  "digit_capture lit url ds \<longleftrightarrow>
     (\<exists>pre post. url = pre @ lit @ ds @ post \<and> ds \<noteq> [] \<and> list_all isdigit ds
        \<and> (case post of [] \<Rightarrow> True | c # _ \<Rightarrow> \<not> isdigit c)
        \<and> (\<forall>pre' d post'. url = pre' @ lit @ d # post' \<and> isdigit d
              \<longrightarrow> length pre \<le> length pre'))"

section \<open>The outside of the module\<close>

text \<open>
  The module talks to an HTTP client, an HTML library, a logger, the clock and the
  caller's progress callback. Their calls are recorded, in order, as events of a trace;
  the answers of the HTTP client and of the HTML library are parameters of the model.
  A log record is its level and its message; the messages are the format strings of the
  source with their arguments. \<open>HttpGet url\<close> is the request sent, \<open>Parse\<close> and \<open>Find\<close>
  are the calls of the HTML library, \<open>Progress k n\<close> is the call of the callback, and
  \<open>Sleep\<close> is \<open>time.sleep(LINKEDIN_FETCH_DELAY)\<close>, whose duration is a constant of
  \<open>scraper_config\<close>.
\<close>

datatype level = DEBUG | INFO | WARNING | ERROR

datatype message =
    RateLimited string
  | JobNotFound string
  | FailedToFetch string int
  | NoDescriptionFound string
  | TimeoutFetching string
  | RequestError string exn
  | UnexpectedError string exn
  | NoJobsNeedFetching
  | FetchingDescriptions nat
  | FetchedDescription string nat
  | ProgressCallbackError exn
  | Summary nat nat nat

datatype event =
    Log level message
  | HttpGet string
  | Parse string
  | Find string
  | Progress nat nat
  | Sleep

text \<open>
  A record lives in the heap and the list \<open>jobs\<close> holds references to records, so that
  two entries of the list may be one and the same record. The state is the world
  outside (what the HTTP client and the callback see and change), the trace, and the
  heap.
\<close>

type_synonym ref = nat

record 'w state =
  world :: 'w
  trace :: "event list"
  heap :: "ref \<Rightarrow> dict"

definition emit :: "event \<Rightarrow> 'w state \<Rightarrow> 'w state" where
  "emit e st = st\<lparr>trace := trace st @ [e]\<rparr>"

record response =
  status_code :: int
  response_text :: string

text \<open>
  \<open>requests_get url\<close> is \<open>requests.get(url, headers=DEFAULT_HEADERS,
  timeout=LINKEDIN_REQUEST_TIMEOUT)\<close>: a response or an exception, and the world after
  the call. \<open>BeautifulSoup markup\<close> is \<open>BeautifulSoup(markup, 'html.parser')\<close> and
  \<open>soup_find soup c\<close> is \<open>soup.find(class_=c)\<close>, given by the \<open>str()\<close> of the element
  found (a \<open>Tag\<close> is always truthy). \<open>soup_get_text markup\<close> is the part of
  \<open>clean_html_text\<close> that works on the parse tree: the parse of the fragment, a newline
  for every \<open>br\<close>, the bullet in front of and the newline behind every \<open>li\<close>, the newline
  behind every \<open>p\<close>, and \<open>get_text()\<close> of the result.
\<close>

record ('w, 's) library =
  requests_get :: "string \<Rightarrow> 'w \<Rightarrow> (exn + response) \<times> 'w"
  BeautifulSoup :: "string \<Rightarrow> exn + 's"
  soup_find :: "'s \<Rightarrow> string \<Rightarrow> exn + string option"
  soup_get_text :: "string \<Rightarrow> exn + string"

text \<open>
  Modelled from the spec: the constant \<open>LINKEDIN_GUEST_API_URL\<close> of \<open>scraper_config\<close>,
  a module that is not among the sources. It is the fixed endpoint template with the one
  field \<open>job_id\<close>; the endpoint is the one the docstring of \<open>fetch_linkedin_description\<close>
  names. The definition is \<open>LINKEDIN_GUEST_API_URL.format(job_id=job_id)\<close>.
\<close>

definition LINKEDIN_GUEST_API_URL :: "string \<Rightarrow> string" where
  "LINKEDIN_GUEST_API_URL job_id =
     ''https://www.linkedin.com/jobs-guest/jobs/api/jobPosting/'' @ job_id"

section \<open>Text normalizer\<close>

text \<open>
  The last lines of \<open>clean_html_text\<close>: split at the newlines, join the words of every
  line with one space, drop the lines that are empty then, join with newlines, strip.
\<close>

definition newline :: char where
  "newline = CHR 0x0A"

definition clean_lines :: "string \<Rightarrow> string" where
  "clean_lines txt =
     (let lines = py_split_on newline txt;
          cleaned_lines = map (\<lambda>line. py_join '' '' (py_split line)) lines;
          joined = py_join [newline] (filter (\<lambda>line. line \<noteq> []) cleaned_lines)
      in py_strip joined)"

definition clean_html_text :: "('w, 's) library \<Rightarrow> string \<Rightarrow> exn + string" where
  "clean_html_text lib html_content =
     (if html_content = [] then Inr []
      else (case soup_get_text lib html_content of
              Inl e \<Rightarrow> Inl e
            | Inr txt \<Rightarrow> Inr (clean_lines txt)))"

section \<open>Description fetcher\<close>

definition fallback_selectors :: "string list" where
  "fallback_selectors = [''description__text'', ''job-description'', ''description'']"

text \<open>\<open>return clean_html_text(str(element))\<close>\<close>

definition return_cleaned :: "('w, 's) library \<Rightarrow> string \<Rightarrow> exn + string option" where
  "return_cleaned lib element =
     (case clean_html_text lib element of Inl e \<Rightarrow> Inl e | Inr t \<Rightarrow> Inr (Some t))"

text \<open>The loop over \<open>fallback_selectors\<close> and the two lines behind it.\<close>

fun try_fallbacks ::
  "('w, 's) library \<Rightarrow> 's \<Rightarrow> string \<Rightarrow> string list \<Rightarrow> 'w state \<Rightarrow> (exn + string option) \<times> 'w state"
where
  "try_fallbacks lib soup job_id [] st =
     (Inr None, emit (Log DEBUG (NoDescriptionFound job_id)) st)"
| "try_fallbacks lib soup job_id (selector # rest) st =
     (let st1 = emit (Find selector) st
      in case soup_find lib soup selector of
           Inl e \<Rightarrow> (Inl e, st1)
         | Inr (Some desc_element) \<Rightarrow> (return_cleaned lib desc_element, st1)
         | Inr None \<Rightarrow> try_fallbacks lib soup job_id rest st1)"

text \<open>The body of the \<open>try\<close>: \<open>Inl\<close> is an exception raised inside it.\<close>

definition try_block ::
  "('w, 's) library \<Rightarrow> string \<Rightarrow> string \<Rightarrow> 'w state \<Rightarrow> (exn + string option) \<times> 'w state"
where
  "try_block lib job_id url st =
     (let st1 = emit (HttpGet url) st;
          (r, w) = requests_get lib url (world st1);
          st2 = st1\<lparr>world := w\<rparr>
      in case r of
           Inl e \<Rightarrow> (Inl e, st2)
         | Inr response \<Rightarrow>
             if status_code response = 429
               then (Inr None, emit (Log WARNING (RateLimited job_id)) st2)
             else if status_code response = 404
               then (Inr None, emit (Log DEBUG (JobNotFound job_id)) st2)
             else if status_code response \<noteq> 200
               then (Inr None,
                     emit (Log WARNING (FailedToFetch job_id (status_code response))) st2)
             else
               (let st3 = emit (Parse (response_text response)) st2
                in case BeautifulSoup lib (response_text response) of
                     Inl e \<Rightarrow> (Inl e, st3)
                   | Inr soup \<Rightarrow>
                       (let st4 = emit (Find ''show-more-less-html__markup'') st3
                        in case soup_find lib soup ''show-more-less-html__markup'' of
                             Inl e \<Rightarrow> (Inl e, st4)
                           | Inr (Some description_div) \<Rightarrow>
                               (return_cleaned lib description_div, st4)
                           | Inr None \<Rightarrow>
                               try_fallbacks lib soup job_id fallback_selectors st4)))"

text \<open>
  \<open>fetch_linkedin_description\<close>: the guard, the URL, the \<open>try\<close> and its three handlers.
  The result is \<open>Inl\<close> when an exception leaves the function.
\<close>

definition fetch_linkedin_description ::
  "('w, 's) library \<Rightarrow> string \<Rightarrow> 'w state \<Rightarrow> (exn + string option) \<times> 'w state"
where
  "fetch_linkedin_description lib job_id st =
     (if job_id = [] then (Inr None, st)
      else
        (let url = LINKEDIN_GUEST_API_URL job_id;
             (r, st1) = try_block lib job_id url st
         in case r of
              Inr description \<Rightarrow> (Inr description, st1)
            | Inl Timeout \<Rightarrow> (Inr None, emit (Log WARNING (TimeoutFetching job_id)) st1)
            | Inl RequestException \<Rightarrow>
                (Inr None, emit (Log ERROR (RequestError job_id RequestException)) st1)
            | Inl e \<Rightarrow> (Inr None, emit (Log ERROR (UnexpectedError job_id e)) st1)))"

section \<open>Batch enricher\<close>

text \<open>\<open>job.get('link', '') or job.get('job_url', '')\<close>\<close>

definition job_url_of :: "dict \<Rightarrow> pyval" where
  "job_url_of job = py_or (dict_get job ''link'' (PStr [])) (dict_get job ''job_url'' (PStr []))"

text \<open>
  \<open>not description or description.strip() == ''\<close>; a truthy value that is no string
  has no \<open>strip\<close>.
\<close>

definition no_description :: "pyval \<Rightarrow> exn + bool" where
  "no_description description =
     (if \<not> truthy description then Inr True
      else (case description of
              PStr s \<Rightarrow> Inr (py_strip s = [])
            | _ \<Rightarrow> Inl AttributeError))"

text \<open>
  The body of the first loop for one record: the identifier to append, if any, or the
  exception raised.
\<close>

definition select_job :: "dict \<Rightarrow> exn + string option" where
  "select_job job =
     (let site = py_lower (py_str (dict_get job ''site'' (PStr [])))
      in if site = ''linkedin''
         then (case no_description (dict_get job ''description'' (PStr [])) of
                 Inl e \<Rightarrow> Inl e
               | Inr False \<Rightarrow> Inr None
               | Inr True \<Rightarrow>
                   (case extract_linkedin_job_id (job_url_of job) of
                      Inl e \<Rightarrow> Inl e
                    | Inr None \<Rightarrow> Inr None
                    | Inr (Some job_id) \<Rightarrow> if job_id \<noteq> [] then Inr (Some job_id) else Inr None))
         else Inr None)"

text \<open>The first loop: \<open>i\<close> is the index of \<open>enumerate\<close>, \<open>acc\<close> is \<open>linkedin_jobs_to_fetch\<close>.\<close>

fun scan_jobs ::
  "(ref \<Rightarrow> dict) \<Rightarrow> ref list \<Rightarrow> nat \<Rightarrow> (nat \<times> string) list \<Rightarrow> exn + (nat \<times> string) list"
where
  "scan_jobs h [] i acc = Inr acc"
| "scan_jobs h (r # rs) i acc =
     (case select_job (h r) of
        Inl e \<Rightarrow> Inl e
      | Inr None \<Rightarrow> scan_jobs h rs (Suc i) acc
      | Inr (Some job_id) \<Rightarrow> scan_jobs h rs (Suc i) (acc @ [(i, job_id)]))"

text \<open>
  The progress callback gets the position and the total, sees and changes the world,
  and returns or raises. An exception it raises is logged and dropped.
\<close>

type_synonym 'w callback = "nat \<Rightarrow> nat \<Rightarrow> 'w \<Rightarrow> exn option \<times> 'w"

definition report_progress :: "'w callback option \<Rightarrow> nat \<Rightarrow> nat \<Rightarrow> 'w state \<Rightarrow> 'w state" where
  "report_progress progress_callback current n st =
     (case progress_callback of
        None \<Rightarrow> st
      | Some f \<Rightarrow>
          (let st1 = emit (Progress current n) st;
               (raised, w) = f current n (world st1);
               st2 = st1\<lparr>world := w\<rparr>
           in case raised of
                None \<Rightarrow> st2
              | Some e \<Rightarrow> emit (Log DEBUG (ProgressCallbackError e)) st2))"

text \<open>\<open>jobs[job_index]['description'] = description\<close>\<close>

definition set_description :: "ref \<Rightarrow> string \<Rightarrow> 'w state \<Rightarrow> 'w state" where
  "set_description r description st =
     st\<lparr>heap := (heap st)(r := (heap st r)(''description'' \<mapsto> PStr description))\<rparr>"

text \<open>
  The body of the second loop for the pair \<open>(job_index, job_id)\<close> at position \<open>idx\<close>;
  \<open>n\<close> is \<open>len(linkedin_jobs_to_fetch)\<close>. The state of the loop is the state and the
  two counters.
\<close>

definition fetch_one ::
  "('w, 's) library \<Rightarrow> 'w callback option \<Rightarrow> ref list \<Rightarrow> nat \<Rightarrow> nat \<Rightarrow> nat \<times> string
     \<Rightarrow> 'w state \<times> nat \<times> nat \<Rightarrow> exn + 'w state \<times> nat \<times> nat"
where
  "fetch_one lib progress_callback jobs n idx item loop_state =
     (case (item, loop_state) of ((job_index, job_id), (st, fetched_count, failed_count)) \<Rightarrow>
        (let st1 = report_progress progress_callback (idx + 1) n st;
             (r, st2) = fetch_linkedin_description lib job_id st1
         in case r of
              Inl e \<Rightarrow> Inl e
            | Inr description \<Rightarrow>
                (case (case description of
                         None \<Rightarrow> Inr (st2, fetched_count, failed_count + 1)
                       | Some d \<Rightarrow>
                           if d \<noteq> []
                           then (if job_index < length jobs
                                 then Inr (emit (Log DEBUG (FetchedDescription job_id (length d)))
                                             (set_description (jobs ! job_index) d st2),
                                           fetched_count + 1, failed_count)
                                 else Inl IndexError)
                           else Inr (st2, fetched_count, failed_count + 1)) of
                   Inl e \<Rightarrow> Inl e
                 | Inr (st3, fetched, failed) \<Rightarrow>
                     Inr (if idx < n - 1 then emit Sleep st3 else st3, fetched, failed))))"

fun fetch_loop ::
  "('w, 's) library \<Rightarrow> 'w callback option \<Rightarrow> ref list \<Rightarrow> nat \<Rightarrow> nat \<Rightarrow> (nat \<times> string) list
     \<Rightarrow> 'w state \<times> nat \<times> nat \<Rightarrow> exn + 'w state \<times> nat \<times> nat"
where
  "fetch_loop lib progress_callback jobs n idx [] loop_state = Inr loop_state"
| "fetch_loop lib progress_callback jobs n idx (item # rest) loop_state =
     (case fetch_one lib progress_callback jobs n idx item loop_state of
        Inl e \<Rightarrow> Inl e
      | Inr loop_state' \<Rightarrow> fetch_loop lib progress_callback jobs n (Suc idx) rest loop_state')"

text \<open>
  \<open>fetch_descriptions_for_jobs\<close>: the list returned and the state after the call, or the
  exception that leaves the function.
\<close>

definition fetch_descriptions_for_jobs ::
  "('w, 's) library \<Rightarrow> 'w callback option \<Rightarrow> ref list \<Rightarrow> 'w state \<Rightarrow> exn + ref list \<times> 'w state"
where
  "fetch_descriptions_for_jobs lib progress_callback jobs st =
     (case scan_jobs (heap st) jobs 0 [] of
        Inl e \<Rightarrow> Inl e
      | Inr linkedin_jobs_to_fetch \<Rightarrow>
          if linkedin_jobs_to_fetch = []
          then Inr (jobs, emit (Log INFO NoJobsNeedFetching) st)
          else
            (let n = length linkedin_jobs_to_fetch;
                 st1 = emit (Log INFO (FetchingDescriptions n)) st
             in case fetch_loop lib progress_callback jobs n 0 linkedin_jobs_to_fetch
                       (st1, 0, 0) of
                  Inl e \<Rightarrow> Inl e
                | Inr (st2, fetched_count, failed_count) \<Rightarrow>
                    Inr (jobs, emit (Log INFO (Summary fetched_count failed_count n)) st2)))"

section \<open>Observations on a trace\<close>

text \<open>The URLs of the HTTP requests of a trace, in order.\<close>

primrec http_gets :: "event list \<Rightarrow> string list" where
  "http_gets [] = []"
| "http_gets (e # es) = (case e of HttpGet u \<Rightarrow> u # http_gets es | _ \<Rightarrow> http_gets es)"

text \<open>The requests and the pauses of a trace; the calls of the callback.\<close>

definition is_pacing :: "event \<Rightarrow> bool" where
  "is_pacing e = (case e of HttpGet u \<Rightarrow> True | Sleep \<Rightarrow> True | _ \<Rightarrow> False)"

definition is_progress :: "event \<Rightarrow> bool" where
  "is_progress e = (case e of Progress k n \<Rightarrow> True | _ \<Rightarrow> False)"

text \<open>The events of the fetcher behind its request: the HTML library and its own log records.\<close>

definition fetcher_event :: "event \<Rightarrow> bool" where
  "fetcher_event e =
     (case e of
        Parse b \<Rightarrow> True
      | Find c \<Rightarrow> True
      | Log l m \<Rightarrow>
          (case m of
             RateLimited j \<Rightarrow> True
           | JobNotFound j \<Rightarrow> True
           | FailedToFetch j s \<Rightarrow> True
           | NoDescriptionFound j \<Rightarrow> True
           | TimeoutFetching j \<Rightarrow> True
           | RequestError j x \<Rightarrow> True
           | UnexpectedError j x \<Rightarrow> True
           | _ \<Rightarrow> False)
      | _ \<Rightarrow> False)"

text \<open>\<open>between x ys\<close>: the list \<open>ys\<close> with \<open>x\<close> between every two neighbours.\<close>

fun between :: "'a \<Rightarrow> 'a list \<Rightarrow> 'a list" where
  "between x [] = []"
| "between x [y] = [y]"
| "between x (y # z # zs) = y # x # between x (z # zs)"

section \<open>A library and a world for concrete runs\<close>

text \<open>
  A small outside to run the module in. The world counts the requests made. Job
  \<open>1234567890\<close> has a page with the primary container, job \<open>555\<close> a page whose only
  container holds white space, jobs \<open>201\<close>, \<open>404\<close> and \<open>429\<close> are answered with these
  status codes (\<open>201\<close> with the page of job \<open>1234567890\<close>), and every other request
  times out. The parse of a markup is the markup; the character reference in
  \<open>Tom &amp; Jerry\<close> is decoded; every other text is its own text.
\<close>

definition demo_page :: string where
  "demo_page = ''<div class=show-more-less-html__markup>Hello   world </div>''"

definition blank_page :: string where
  "blank_page = ''<div class=description>  </div>''"

definition demo_get :: "string \<Rightarrow> nat \<Rightarrow> (exn + response) \<times> nat" where
  "demo_get url w =
     (if url = LINKEDIN_GUEST_API_URL ''1234567890''
        then Inr \<lparr>status_code = 200, response_text = demo_page\<rparr>
      else if url = LINKEDIN_GUEST_API_URL ''555''
        then Inr \<lparr>status_code = 200, response_text = blank_page\<rparr>
      else if url = LINKEDIN_GUEST_API_URL ''201''
        then Inr \<lparr>status_code = 201, response_text = demo_page\<rparr>
      else if url = LINKEDIN_GUEST_API_URL ''404''
        then Inr \<lparr>status_code = 404, response_text = []\<rparr>
      else if url = LINKEDIN_GUEST_API_URL ''429''
        then Inr \<lparr>status_code = 429, response_text = []\<rparr>
      else Inl Timeout,
      Suc w)"

definition demo_find :: "string \<Rightarrow> string \<Rightarrow> exn + string option" where
  "demo_find soup c =
     (if soup = demo_page \<and> c = ''show-more-less-html__markup'' then Inr (Some demo_page)
      else if soup = blank_page \<and> c = ''description'' then Inr (Some blank_page)
      else Inr None)"

definition demo_get_text :: "string \<Rightarrow> exn + string" where
  "demo_get_text markup =
     (if markup = demo_page then Inr ''Hello   world ''
      else if markup = blank_page then Inr ''  ''
      else if markup = ''Tom &amp; Jerry'' then Inr ''Tom & Jerry''
      else Inr markup)"

definition demo_library :: "(nat, string) library" where
  "demo_library =
     \<lparr>requests_get = demo_get, BeautifulSoup = Inr, soup_find = demo_find,
      soup_get_text = demo_get_text\<rparr>"

definition demo_state :: "(ref \<Rightarrow> dict) \<Rightarrow> nat state" where
  "demo_state h = \<lparr>world = 0, trace = [], heap = h\<rparr>"

section \<open>The targeting conditions, in the words of the specification\<close>

text \<open>Two texts compare equal case-insensitively.\<close>

definition caseless_equal :: "string \<Rightarrow> string \<Rightarrow> bool" where
  "caseless_equal a b \<longleftrightarrow> py_lower a = py_lower b"

text \<open>The \<open>site\<close> field indicates the target source.\<close>

definition site_is_linkedin :: "dict \<Rightarrow> bool" where
  "site_is_linkedin d =
     (case d ''site'' of None \<Rightarrow> False | Some v \<Rightarrow> caseless_equal (py_str v) ''linkedin'')"

text \<open>
  The existing description is empty or white space only. A record without the key, or
  with \<open>None\<close> or another falsy object under it, has an empty description.
\<close>

definition description_blank :: "dict \<Rightarrow> bool" where
  "description_blank d =
     (case d ''description'' of
        None \<Rightarrow> True
      | Some PNone \<Rightarrow> True
      | Some (PStr s) \<Rightarrow> list_all isspace s
      | Some (PObj b s) \<Rightarrow> \<not> b)"

text \<open>The URL field yields a valid identifier.\<close>

definition yields_identifier :: "dict \<Rightarrow> string \<Rightarrow> bool" where
  "yields_identifier d job_id \<longleftrightarrow> extract_linkedin_job_id (job_url_of d) = Inr (Some job_id)"

definition has_identifier :: "dict \<Rightarrow> bool" where
  "has_identifier d =
     (case extract_linkedin_job_id (job_url_of d) of Inr (Some job_id) \<Rightarrow> True | _ \<Rightarrow> False)"

definition targeted :: "dict \<Rightarrow> bool" where
  "targeted d \<longleftrightarrow> site_is_linkedin d \<and> description_blank d \<and> has_identifier d"

text \<open>
  A record of the data model: its description and its two URL fields are texts, or
  \<open>None\<close>, or absent. (The \<open>site\<close> may be any object; the module takes its \<open>str()\<close>.)
\<close>

definition text_or_none :: "pyval option \<Rightarrow> bool" where
  "text_or_none x = (case x of Some (PObj b s) \<Rightarrow> False | _ \<Rightarrow> True)"

definition text_fields :: "dict \<Rightarrow> bool" where
  "text_fields d \<longleftrightarrow>
     text_or_none (d ''description'') \<and> text_or_none (d ''link'') \<and> text_or_none (d ''job_url'')"

text \<open>The fetcher's answers that the batch counts as failed: no result, or the empty text.\<close>

definition no_result :: "(exn + string option) \<Rightarrow> bool" where
  "no_result r \<longleftrightarrow> r = Inr None \<or> r = Inr (Some [])"

text \<open>
  Records for concrete runs. Record 0 is a LinkedIn posting with a blank description
  and an identifier in its URL; record 1 is a LinkedIn posting that has a description;
  record 2 is a posting of another site; record 3 is a LinkedIn posting without a
  description whose \<open>link\<close> and \<open>job_url\<close> hold different identifiers; every further
  record is a LinkedIn posting with an empty description and the identifier \<open>555\<close>.
\<close>

definition demo_heap :: "ref \<Rightarrow> dict" where
  "demo_heap r =
     (if r = 0 then
        [''site'' \<mapsto> PStr ''LinkedIn'', ''description'' \<mapsto> PStr ''  '',
         ''job_url'' \<mapsto> PStr ''https://www.linkedin.com/jobs/view/1234567890/'']
      else if r = 1 then
        [''site'' \<mapsto> PStr ''linkedin'', ''description'' \<mapsto> PStr ''Existing text'',
         ''job_url'' \<mapsto> PStr ''https://www.linkedin.com/jobs/view/555'']
      else if r = 2 then
        [''site'' \<mapsto> PStr ''indeed'', ''description'' \<mapsto> PStr [],
         ''job_url'' \<mapsto> PStr ''https://www.indeed.com/jobs/view/777'']
      else if r = 3 then
        [''site'' \<mapsto> PStr ''linkedin'', ''description'' \<mapsto> PNone,
         ''link'' \<mapsto> PStr ''https://www.linkedin.com/jobs/search/?currentJobId=404'',
         ''job_url'' \<mapsto> PStr ''https://www.linkedin.com/jobs/view/1234567890/'']
      else
        [''site'' \<mapsto> PStr ''linkedin'', ''description'' \<mapsto> PStr [],
         ''job_url'' \<mapsto> PStr ''https://www.linkedin.com/jobs/555''])"

text \<open>A callback that raises at the first position and returns at the others.\<close>

definition demo_callback :: "nat callback" where
  "demo_callback k n w = (if k = 1 then Some OtherError else None, w)"

section \<open>Clean text, in the words of the specification\<close>

text \<open>
  A word is a non-empty text without white space; a clean line is one or more words with
  one space between neighbours; a clean text is a sequence of clean lines with one
  newline between neighbours.
\<close>

definition word :: "string \<Rightarrow> bool" where
  "word w \<longleftrightarrow> w \<noteq> [] \<and> (\<forall>c\<in>set w. \<not> isspace c)"

definition clean_line :: "string \<Rightarrow> bool" where
  "clean_line l \<longleftrightarrow> (\<exists>ws. ws \<noteq> [] \<and> list_all word ws \<and> l = py_join '' '' ws)"

definition clean_text :: "string \<Rightarrow> bool" where
  "clean_text t \<longleftrightarrow> (\<exists>ls. list_all clean_line ls \<and> t = py_join [newline] ls)"




section \<open>Properties of the identifier extractor\<close>

lemma match_at_Some_iff:
  "match_at lit s = Some ds \<longleftrightarrow>
     (\<exists>post. s = lit @ ds @ post \<and> ds \<noteq> [] \<and> list_all isdigit ds
        \<and> (case post of [] \<Rightarrow> True | c # _ \<Rightarrow> \<not> isdigit c))"
proof
  assume m: "match_at lit s = Some ds"
  then have p: "prefix lit s" and ds: "ds = takeWhile isdigit (drop (length lit) s)" and ne: "ds \<noteq> []"
    by (auto simp: match_at_def Let_def split: if_splits)
  from p obtain r where s: "s = lit @ r" by (auto simp: prefix_def)
  have r: "r = ds @ dropWhile isdigit r" using ds s by simp
  have "list_all isdigit ds" using ds by (simp add: list_all_iff) (meson set_takeWhileD)
  moreover have "case dropWhile isdigit r of [] \<Rightarrow> True | c # _ \<Rightarrow> \<not> isdigit c"
  proof (cases "dropWhile isdigit r")
    case Nil
    show ?thesis unfolding Nil by simp
  next
    case (Cons a as)
    then have "dropWhile isdigit r \<noteq> []" by simp
    then have "\<not> isdigit (hd (dropWhile isdigit r))" by (rule hd_dropWhile)
    then show ?thesis using Cons by simp
  qed
  ultimately show "\<exists>post. s = lit @ ds @ post \<and> ds \<noteq> [] \<and> list_all isdigit ds
        \<and> (case post of [] \<Rightarrow> True | c # _ \<Rightarrow> \<not> isdigit c)"
    using s r ne by (intro exI [of _ "dropWhile isdigit r"]) auto
next
  assume "\<exists>post. s = lit @ ds @ post \<and> ds \<noteq> [] \<and> list_all isdigit ds
        \<and> (case post of [] \<Rightarrow> True | c # _ \<Rightarrow> \<not> isdigit c)"
  then obtain post where s: "s = lit @ ds @ post" and ne: "ds \<noteq> []" and d: "list_all isdigit ds"
    and e: "case post of [] \<Rightarrow> True | c # _ \<Rightarrow> \<not> isdigit c" by blast
  have "takeWhile isdigit (ds @ post) = ds"
    using d e by (cases post) (auto simp: list_all_iff takeWhile_append2 intro: takeWhile_eq_all_conv [THEN iffD2])
  then show "match_at lit s = Some ds" using s ne by (simp add: match_at_def)
qed

lemma match_at_None_iff:
  "match_at lit s = None \<longleftrightarrow> \<not> (\<exists>d post. s = lit @ d # post \<and> isdigit d)"
proof (cases "prefix lit s")
  case False
  then show ?thesis by (auto simp: match_at_def prefix_def)
next
  case True
  then obtain r where s: "s = lit @ r" by (auto simp: prefix_def)
  show ?thesis
  proof (cases r)
    case Nil
    then show ?thesis using s by (simp add: match_at_def)
  next
    case (Cons a as)
    then show ?thesis using s by (auto simp: match_at_def)
  qed
qed

lemma matches_Cons:
  "matches lit (c # cs) \<longleftrightarrow> (\<exists>d post. c # cs = lit @ d # post \<and> isdigit d) \<or> matches lit cs"
proof
  assume "matches lit (c # cs)"
  then obtain pre d post where u: "c # cs = pre @ lit @ d # post" and d: "isdigit d"
    unfolding matches_def by blast
  show "(\<exists>d post. c # cs = lit @ d # post \<and> isdigit d) \<or> matches lit cs"
  proof (cases pre)
    case Nil
    then show ?thesis using u d by auto
  next
    case (Cons x xs)
    then have "cs = xs @ lit @ d # post" using u by simp
    then have "matches lit cs" unfolding matches_def using d by blast
    then show ?thesis ..
  qed
next
  assume "(\<exists>d post. c # cs = lit @ d # post \<and> isdigit d) \<or> matches lit cs"
  then show "matches lit (c # cs)"
  proof
    assume "\<exists>d post. c # cs = lit @ d # post \<and> isdigit d"
    then obtain d post where "c # cs = [] @ lit @ d # post" "isdigit d" by auto
    then show ?thesis unfolding matches_def by blast
  next
    assume "matches lit cs"
    then obtain pre d post where "cs = pre @ lit @ d # post" "isdigit d"
      unfolding matches_def by blast
    then have "c # cs = (c # pre) @ lit @ d # post" by simp
    then show ?thesis unfolding matches_def using \<open>isdigit d\<close> by blast
  qed
qed

lemma matches_Nil: "\<not> matches lit []"
  by (simp add: matches_def)

lemma re_search_None_iff: "re_search lit url = None \<longleftrightarrow> \<not> matches lit url"
proof (induction url)
  case Nil
  show ?case by (simp add: matches_Nil match_at_None_iff)
next
  case (Cons c cs)
  show ?case
  proof (cases "match_at lit (c # cs)")
    case None
    then have "re_search lit (c # cs) = re_search lit cs" by simp
    moreover have "\<not> (\<exists>d post. c # cs = lit @ d # post \<and> isdigit d)"
      using None by (simp add: match_at_None_iff)
    ultimately show ?thesis using Cons by (simp add: matches_Cons)
  next
    case (Some ds)
    then have "\<not> match_at lit (c # cs) = None" by simp
    then have "\<exists>d post. c # cs = lit @ d # post \<and> isdigit d"
      by (simp add: match_at_None_iff)
    then show ?thesis using Some by (simp add: matches_Cons)
  qed
qed

lemma re_search_Some: "re_search lit url = Some ds \<Longrightarrow> digit_capture lit url ds"
proof (induction url)
  case Nil
  then show ?case by (simp add: match_at_def split: if_splits)
next
  case (Cons c cs)
  show ?case
  proof (cases "match_at lit (c # cs)")
    case (Some es)
    then have "es = ds" using Cons.prems by simp
    with Some obtain post where "c # cs = lit @ ds @ post" "ds \<noteq> []" "list_all isdigit ds"
      "case post of [] \<Rightarrow> True | c # _ \<Rightarrow> \<not> isdigit c"
      by (auto simp: match_at_Some_iff)
    then show ?thesis unfolding digit_capture_def
      by (intro exI [of _ "[]"] exI [of _ post]) simp
  next
    case None
    then have "re_search lit cs = Some ds" using Cons.prems by simp
    then have "digit_capture lit cs ds" by (rule Cons.IH)
    then obtain pre post where cs: "cs = pre @ lit @ ds @ post" and ne: "ds \<noteq> []"
      and d: "list_all isdigit ds" and e: "case post of [] \<Rightarrow> True | c # _ \<Rightarrow> \<not> isdigit c"
      and l: "\<forall>pre' d post'. cs = pre' @ lit @ d # post' \<and> isdigit d \<longrightarrow> length pre \<le> length pre'"
      unfolding digit_capture_def by blast
    have "\<forall>pre' d post'. c # cs = pre' @ lit @ d # post' \<and> isdigit d
              \<longrightarrow> length (c # pre) \<le> length pre'"
    proof (intro allI impI)
      fix pre' d post'
      assume a: "c # cs = pre' @ lit @ d # post' \<and> isdigit d"
      show "length (c # pre) \<le> length pre'"
      proof (cases pre')
        case Nil
        then have "\<exists>d post. c # cs = lit @ d # post \<and> isdigit d" using a by auto
        then show ?thesis using None by (simp add: match_at_None_iff)
      next
        case (Cons x xs)
        then have "cs = xs @ lit @ d # post'" using a by simp
        then have "length pre \<le> length xs" using l a by blast
        then show ?thesis using Cons by simp
      qed
    qed
    then show ?thesis unfolding digit_capture_def using cs ne d e
      by (intro exI [of _ "c # pre"] exI [of _ post]) simp
  qed
qed

lemma digit_capture_unique:
  assumes "digit_capture lit url ds" and "digit_capture lit url es"
  shows "ds = es"
proof -
  from assms(1) obtain pre post where u: "url = pre @ lit @ ds @ post" and ne: "ds \<noteq> []"
    and d: "list_all isdigit ds" and e: "case post of [] \<Rightarrow> True | c # _ \<Rightarrow> \<not> isdigit c"
    and l: "\<forall>pre' d post'. url = pre' @ lit @ d # post' \<and> isdigit d \<longrightarrow> length pre \<le> length pre'"
    unfolding digit_capture_def by blast
  from assms(2) obtain pre2 post2 where u2: "url = pre2 @ lit @ es @ post2" and ne2: "es \<noteq> []"
    and d2: "list_all isdigit es" and e2: "case post2 of [] \<Rightarrow> True | c # _ \<Rightarrow> \<not> isdigit c"
    and l2: "\<forall>pre' d post'. url = pre' @ lit @ d # post' \<and> isdigit d \<longrightarrow> length pre2 \<le> length pre'"
    unfolding digit_capture_def by blast
  have tk: "takeWhile isdigit (xs @ r) = xs"
    if "list_all isdigit xs" "case r of [] \<Rightarrow> True | c # _ \<Rightarrow> \<not> isdigit c" for xs r
    using that by (cases r) (auto simp: list_all_iff intro: takeWhile_eq_all_conv [THEN iffD2])
  obtain x xs where ds: "ds = x # xs" using ne by (cases ds) auto
  obtain y ys where es: "es = y # ys" using ne2 by (cases es) auto
  have "url = pre @ lit @ x # (xs @ post) \<and> isdigit x" using u d ds by simp
  then have a: "length pre2 \<le> length pre" using l2 by blast
  have "url = pre2 @ lit @ y # (ys @ post2) \<and> isdigit y" using u2 d2 es by simp
  then have b: "length pre \<le> length pre2" using l by blast
  from a b u u2 have "pre = pre2 \<and> lit @ ds @ post = lit @ es @ post2"
    by (metis append_eq_append_conv le_antisym)
  then have "ds @ post = es @ post2" by simp
  then have "takeWhile isdigit (ds @ post) = takeWhile isdigit (es @ post2)" by simp
  then show ?thesis using tk [OF d e] tk [OF d2 e2] by simp
qed

lemma first_match_None_iff:
  "first_match ps url = None \<longleftrightarrow> (\<forall>p\<in>set ps. \<not> matches p url)"
proof (induction ps)
  case Nil
  show ?case by simp
next
  case (Cons p ps)
  show ?case
  proof (cases "re_search p url")
    case None
    then have "\<not> matches p url" by (simp add: re_search_None_iff)
    then show ?thesis using None Cons by simp
  next
    case (Some g)
    then have "re_search p url \<noteq> None" by simp
    then have "matches p url" by (simp add: re_search_None_iff)
    then show ?thesis using Some by auto
  qed
qed

lemma first_match_first:
  "i < length ps \<Longrightarrow> matches (ps ! i) url \<Longrightarrow> \<forall>j<i. \<not> matches (ps ! j) url
     \<Longrightarrow> first_match ps url = re_search (ps ! i) url"
proof (induction ps arbitrary: i)
  case Nil
  then show ?case by simp
next
  case (Cons p ps)
  show ?case
  proof (cases i)
    case 0
    then have "re_search p url \<noteq> None" using Cons.prems by (simp add: re_search_None_iff)
    then show ?thesis using 0 by (auto split: option.splits)
  next
    case (Suc k)
    then have "\<not> matches p url" using Cons.prems(3) by auto
    then have n: "re_search p url = None" by (simp add: re_search_None_iff)
    have "\<forall>j<k. \<not> matches (ps ! j) url" using Cons.prems(3) Suc by auto
    then have "first_match ps url = re_search (ps ! k) url"
      using Cons.IH [of k] Cons.prems Suc by simp
    then show ?thesis using n Suc by simp
  qed
qed

text \<open>
  C2. For every URL string the extractor tries the four patterns \<open>/jobs/view/<digits>\<close>,
  \<open>/jobs/<digits>\<close>, \<open>currentJobId=<digits>\<close>, \<open>jobId=<digits>\<close> in this order and
  returns the digit sequence of the first pattern that matches the URL (so a URL that
  matches patterns 1 and 3 gives the digits of pattern 1); for the empty URL and for a
  URL that no pattern matches it returns no result.
\<close>

theorem extract_linkedin_job_id_first_pattern:
  "patterns = [''/jobs/view/'', ''/jobs/'', ''currentJobId='', ''jobId='']
   \<and> (url = [] \<longrightarrow> extract_linkedin_job_id (PStr url) = Inr None)
   \<and> ((\<forall>p\<in>set patterns. \<not> matches p url) \<longrightarrow> extract_linkedin_job_id (PStr url) = Inr None)
   \<and> (\<forall>i<length patterns.
         matches (patterns ! i) url \<and> (\<forall>j<i. \<not> matches (patterns ! j) url) \<longrightarrow>
           (\<exists>ds. extract_linkedin_job_id (PStr url) = Inr (Some ds)
                \<and> digit_capture (patterns ! i) url ds
                \<and> (\<forall>es. digit_capture (patterns ! i) url es \<longrightarrow> es = ds)))"
proof (intro conjI allI impI)
  show "patterns = [''/jobs/view/'', ''/jobs/'', ''currentJobId='', ''jobId='']"
    by (simp add: patterns_def)
next
  assume "url = []"
  then show "extract_linkedin_job_id (PStr url) = Inr None"
    by (simp add: extract_linkedin_job_id_def truthy_def)
next
  assume "\<forall>p\<in>set patterns. \<not> matches p url"
  then have "first_match patterns url = None" by (simp only: first_match_None_iff)
  then show "extract_linkedin_job_id (PStr url) = Inr None"
    by (simp add: extract_linkedin_job_id_def truthy_def)
next
  fix i
  assume i: "i < length patterns"
    and m: "matches (patterns ! i) url \<and> (\<forall>j<i. \<not> matches (patterns ! j) url)"
  then have f: "first_match patterns url = re_search (patterns ! i) url"
    by (intro first_match_first) auto
  from m have "re_search (patterns ! i) url \<noteq> None" by (simp add: re_search_None_iff)
  then obtain ds where ds: "re_search (patterns ! i) url = Some ds" by auto
  then have c: "digit_capture (patterns ! i) url ds" by (rule re_search_Some)
  from m have "url \<noteq> []" by (auto simp: matches_def)
  then have "extract_linkedin_job_id (PStr url) = Inr (Some ds)"
    using f ds by (simp add: extract_linkedin_job_id_def truthy_def)
  then show "\<exists>ds. extract_linkedin_job_id (PStr url) = Inr (Some ds)
                \<and> digit_capture (patterns ! i) url ds
                \<and> (\<forall>es. digit_capture (patterns ! i) url es \<longrightarrow> es = ds)"
    using c digit_capture_unique [OF _ c] by blast
qed

lemma matchesI: "url = pre @ lit @ d # post \<Longrightarrow> isdigit d \<Longrightarrow> matches lit url"
  unfolding matches_def by blast

theorem extract_linkedin_job_id_first_pattern_witness:
  "matches ''/jobs/view/'' ''https://www.linkedin.com/jobs/view/1234567890/?currentJobId=77''
   \<and> matches ''currentJobId='' ''https://www.linkedin.com/jobs/view/1234567890/?currentJobId=77''
   \<and> extract_linkedin_job_id (PStr ''https://www.linkedin.com/jobs/view/1234567890/?currentJobId=77'')
       = Inr (Some ''1234567890'')
   \<and> digit_capture ''/jobs/view/'' ''https://www.linkedin.com/jobs/view/1234567890/?currentJobId=77''
       ''1234567890''
   \<and> extract_linkedin_job_id (PStr '''') = Inr None"
proof -
  let ?u = "''https://www.linkedin.com/jobs/view/1234567890/?currentJobId=77''"
  have m1: "matches ''/jobs/view/'' ?u"
    by (rule matchesI [of _ "''https://www.linkedin.com''" _ "CHR ''1''" "''234567890/?currentJobId=77''"])
      (simp_all add: isdigit_def)
  have m3: "matches ''currentJobId='' ?u"
    by (rule matchesI [of _ "''https://www.linkedin.com/jobs/view/1234567890/?''" _ "CHR ''7''" "''7''"])
      (simp_all add: isdigit_def)
  have ev: "extract_linkedin_job_id (PStr ?u) = Inr (Some ''1234567890'')"
    by (simp add: extract_linkedin_job_id_def truthy_def patterns_def match_at_def isdigit_def)
  have "0 < length patterns \<and> matches (patterns ! 0) ?u \<and> (\<forall>j<0. \<not> matches (patterns ! j) ?u)"
    using m1 by (simp add: patterns_def)
  with extract_linkedin_job_id_first_pattern [of ?u]
  obtain ds where "extract_linkedin_job_id (PStr ?u) = Inr (Some ds)"
    and "digit_capture (patterns ! 0) ?u ds" by blast
  with ev have "digit_capture ''/jobs/view/'' ?u ''1234567890''" by (simp add: patterns_def)
  moreover have "extract_linkedin_job_id (PStr '''') = Inr None"
    using extract_linkedin_job_id_first_pattern [of "''''"] by simp
  ultimately show ?thesis using m1 m3 ev by simp
qed

section \<open>Properties of the description fetcher\<close>

lemma http_gets_append: "http_gets (xs @ ys) = http_gets xs @ http_gets ys"
  by (induction xs) (auto split: event.splits)

lemma fetcher_event_no_gets: "list_all fetcher_event evs \<Longrightarrow> http_gets evs = []"
  by (induction evs) (auto simp: fetcher_event_def split: event.splits)

lemma fetcher_event_no_pacing: "list_all fetcher_event evs \<Longrightarrow> filter is_pacing evs = []"
  by (induction evs) (auto simp: fetcher_event_def is_pacing_def split: event.splits)

lemma fetcher_event_no_progress: "list_all fetcher_event evs \<Longrightarrow> filter is_progress evs = []"
  by (induction evs) (auto simp: fetcher_event_def is_progress_def split: event.splits)

lemma emit_simps [simp]:
  "trace (emit e st) = trace st @ [e]" "heap (emit e st) = heap st" "world (emit e st) = world st"
  by (simp_all add: emit_def)

lemma fetcher_event_simps [simp]:
  "fetcher_event (Parse b)" "fetcher_event (Find c)"
  "fetcher_event (Log l (RateLimited j))" "fetcher_event (Log l (JobNotFound j))"
  "fetcher_event (Log l (FailedToFetch j s))" "fetcher_event (Log l (NoDescriptionFound j))"
  "fetcher_event (Log l (TimeoutFetching j))" "fetcher_event (Log l (RequestError j x))"
  "fetcher_event (Log l (UnexpectedError j x))"
  by (simp_all add: fetcher_event_def)

lemma try_fallbacks_frame:
  "try_fallbacks lib soup job_id sels st = (r, st') \<Longrightarrow>
     heap st' = heap st \<and> world st' = world st
     \<and> (\<exists>evs. trace st' = trace st @ evs \<and> list_all fetcher_event evs)"
proof (induction sels arbitrary: st)
  case Nil
  then show ?case by auto
next
  case (Cons selector rest)
  let ?st1 = "emit (Find selector) st"
  show ?case
  proof (cases "soup_find lib soup selector")
    case (Inl e)
    then have "st' = ?st1" using Cons.prems by simp
    then show ?thesis by auto
  next
    case (Inr found)
    show ?thesis
    proof (cases found)
      case (Some el)
      then have "st' = ?st1" using Cons.prems Inr by simp
      then show ?thesis by auto
    next
      case None
      then have "try_fallbacks lib soup job_id rest ?st1 = (r, st')"
        using Cons.prems Inr by simp
      from Cons.IH [OF this] obtain evs where "heap st' = heap ?st1" "world st' = world ?st1"
        "trace st' = trace ?st1 @ evs" "list_all fetcher_event evs" by blast
      then show ?thesis
        by (intro conjI exI [of _ "Find selector # evs"]) auto
    qed
  qed
qed

text \<open>The state behind the request.\<close>

lemma try_block_raised:
  "requests_get lib url (world st) = (Inl e, w) \<Longrightarrow>
     try_block lib job_id url st = (Inl e, (emit (HttpGet url) st)\<lparr>world := w\<rparr>)"
  by (simp add: try_block_def)

lemma try_block_429:
  "requests_get lib url (world st) = (Inr rsp, w) \<Longrightarrow> status_code rsp = 429 \<Longrightarrow>
     try_block lib job_id url st =
       (Inr None, emit (Log WARNING (RateLimited job_id)) ((emit (HttpGet url) st)\<lparr>world := w\<rparr>))"
  by (simp add: try_block_def)

lemma try_block_404:
  "requests_get lib url (world st) = (Inr rsp, w) \<Longrightarrow> status_code rsp = 404 \<Longrightarrow>
     try_block lib job_id url st =
       (Inr None, emit (Log DEBUG (JobNotFound job_id)) ((emit (HttpGet url) st)\<lparr>world := w\<rparr>))"
  by (simp add: try_block_def)

lemma try_block_not_200:
  "requests_get lib url (world st) = (Inr rsp, w) \<Longrightarrow> status_code rsp \<noteq> 429 \<Longrightarrow>
   status_code rsp \<noteq> 404 \<Longrightarrow> status_code rsp \<noteq> 200 \<Longrightarrow>
     try_block lib job_id url st =
       (Inr None, emit (Log WARNING (FailedToFetch job_id (status_code rsp)))
                    ((emit (HttpGet url) st)\<lparr>world := w\<rparr>))"
  by (simp add: try_block_def)

lemma try_block_200:
  "requests_get lib url (world st) = (Inr rsp, w) \<Longrightarrow> status_code rsp = 200 \<Longrightarrow>
     try_block lib job_id url st =
       (case BeautifulSoup lib (response_text rsp) of
          Inl e \<Rightarrow> (Inl e, emit (Parse (response_text rsp)) ((emit (HttpGet url) st)\<lparr>world := w\<rparr>))
        | Inr soup \<Rightarrow>
            (case soup_find lib soup ''show-more-less-html__markup'' of
               Inl e \<Rightarrow>
                 (Inl e, emit (Find ''show-more-less-html__markup'')
                           (emit (Parse (response_text rsp)) ((emit (HttpGet url) st)\<lparr>world := w\<rparr>)))
             | Inr (Some description_div) \<Rightarrow>
                 (return_cleaned lib description_div,
                  emit (Find ''show-more-less-html__markup'')
                    (emit (Parse (response_text rsp)) ((emit (HttpGet url) st)\<lparr>world := w\<rparr>)))
             | Inr None \<Rightarrow>
                 try_fallbacks lib soup job_id fallback_selectors
                   (emit (Find ''show-more-less-html__markup'')
                      (emit (Parse (response_text rsp)) ((emit (HttpGet url) st)\<lparr>world := w\<rparr>)))))"
  by (simp add: try_block_def Let_def split: sum.splits option.splits)

lemma try_block_frame:
  assumes "try_block lib job_id url st = (r, st')"
  shows "heap st' = heap st
     \<and> (\<exists>evs. trace st' = trace st @ HttpGet url # evs \<and> list_all fetcher_event evs)"
proof -
  obtain a w where g: "requests_get lib url (world st) = (a, w)"
    by (cases "requests_get lib url (world st)")
  show ?thesis
  proof (cases a)
    case (Inl e)
    then show ?thesis using assms try_block_raised [of lib url st e w job_id] g by auto
  next
    case (Inr rsp)
    consider "status_code rsp = 429" | "status_code rsp = 404"
      | "status_code rsp \<noteq> 429" "status_code rsp \<noteq> 404" "status_code rsp \<noteq> 200"
      | "status_code rsp = 200" by fastforce
    then show ?thesis
    proof cases
      case 1
      then show ?thesis using assms try_block_429 [of lib url st rsp w job_id] g Inr by auto
    next
      case 2
      then show ?thesis using assms try_block_404 [of lib url st rsp w job_id] g Inr by auto
    next
      case 3
      then show ?thesis using assms try_block_not_200 [of lib url st rsp w job_id] g Inr by auto
    next
      case 4
      let ?st3 = "emit (Parse (response_text rsp)) ((emit (HttpGet url) st)\<lparr>world := w\<rparr>)"
      let ?st4 = "emit (Find ''show-more-less-html__markup'') ?st3"
      have tr3: "trace ?st3 = trace st @ HttpGet url # [Parse (response_text rsp)]"
        and h3: "heap ?st3 = heap st" by simp_all
      have tr4: "trace ?st4 = trace st @ HttpGet url # [Parse (response_text rsp), Find ''show-more-less-html__markup'']"
        and h4: "heap ?st4 = heap st" by simp_all
      have u: "(r, st') =
        (case BeautifulSoup lib (response_text rsp) of
             Inl e \<Rightarrow> (Inl e, ?st3)
           | Inr soup \<Rightarrow>
               (case soup_find lib soup ''show-more-less-html__markup'' of
                     Inl e \<Rightarrow> (Inl e, ?st4)
                   | Inr (Some description_div) \<Rightarrow> (return_cleaned lib description_div, ?st4)
                   | Inr None \<Rightarrow> try_fallbacks lib soup job_id fallback_selectors ?st4))"
        using assms try_block_200 [of lib url st rsp w job_id] g Inr 4 by simp
      show ?thesis
      proof (cases "BeautifulSoup lib (response_text rsp)")
        case (Inl e)
        then have "st' = ?st3" using u by simp
        then show ?thesis using tr3 h3 by (auto simp del: emit_simps)
      next
        case soup: (Inr soup)
        show ?thesis
        proof (cases "soup_find lib soup ''show-more-less-html__markup''")
          case (Inl e)
          then have "st' = ?st4" using u soup by simp
          then show ?thesis using tr4 h4 by (auto simp del: emit_simps)
        next
          case found: (Inr found)
          show ?thesis
          proof (cases found)
            case (Some el)
            then have "st' = ?st4" using u soup found by simp
            then show ?thesis using tr4 h4 by (auto simp del: emit_simps)
          next
            case None
            then have "try_fallbacks lib soup job_id fallback_selectors ?st4 = (r, st')"
              using u soup found by simp
            from try_fallbacks_frame [OF this] obtain evs where "heap st' = heap ?st4"
              "trace st' = trace ?st4 @ evs" "list_all fetcher_event evs" by blast
            then show ?thesis using tr4 h4
              by (intro conjI exI [of _ "[Parse (response_text rsp), Find ''show-more-less-html__markup''] @ evs"])
                (auto simp del: emit_simps)
          qed
        qed
      qed
    qed
  qed
qed

lemma fetch_linkedin_description_handlers:
  "job_id \<noteq> [] \<Longrightarrow> try_block lib job_id (LINKEDIN_GUEST_API_URL job_id) st = (a, st1) \<Longrightarrow>
     fetch_linkedin_description lib job_id st =
       (case a of
          Inr description \<Rightarrow> (Inr description, st1)
        | Inl Timeout \<Rightarrow> (Inr None, emit (Log WARNING (TimeoutFetching job_id)) st1)
        | Inl RequestException \<Rightarrow>
            (Inr None, emit (Log ERROR (RequestError job_id RequestException)) st1)
        | Inl e \<Rightarrow> (Inr None, emit (Log ERROR (UnexpectedError job_id e)) st1))"
  by (simp add: fetch_linkedin_description_def)

lemma fetch_linkedin_description_frame:
  assumes "fetch_linkedin_description lib job_id st = (r, st')" and "job_id \<noteq> []"
  shows "(\<exists>description. r = Inr description) \<and> heap st' = heap st
     \<and> (\<exists>evs. trace st' = trace st @ HttpGet (LINKEDIN_GUEST_API_URL job_id) # evs
              \<and> list_all fetcher_event evs)"
proof -
  let ?url = "LINKEDIN_GUEST_API_URL job_id"
  obtain a st1 where t: "try_block lib job_id ?url st = (a, st1)"
    by (cases "try_block lib job_id ?url st")
  from try_block_frame [OF t] obtain evs where h: "heap st1 = heap st"
    and tr: "trace st1 = trace st @ HttpGet ?url # evs" and ev: "list_all fetcher_event evs"
    by blast
  note u = fetch_linkedin_description_handlers [OF assms(2) t]
  show ?thesis
  proof (cases a)
    case (Inr d)
    then have "r = Inr d" "st' = st1" using assms u by auto
    then show ?thesis using h tr ev by auto
  next
    case (Inl e)
    then obtain l m where r: "r = Inr None" and s: "st' = emit (Log l m) st1"
      and f: "fetcher_event (Log l m)"
      using assms u by (cases e) auto
    have "trace st' = trace st @ HttpGet ?url # (evs @ [Log l m])" using s tr by simp
    moreover have "list_all fetcher_event (evs @ [Log l m])" using ev f by simp
    moreover have "heap st' = heap st" using s h by simp
    ultimately show ?thesis using r by blast
  qed
qed

text \<open>
  C4. \<open>fetch_linkedin_description\<close> never lets an exception reach its caller: its result
  is always a value. Whenever an exception is raised inside the \<open>try\<close> (by the request: a
  timeout, a transport failure, or anything else; by the HTML library; by the
  normalizer), the function logs one record and returns no result. The statuses 404 and
  429 both give no result; what differs is the log record, at level \<open>DEBUG\<close> for 404 and
  at level \<open>WARNING\<close> for 429.
\<close>

theorem fetch_linkedin_description_never_raises:
  "(\<exists>description. fst (fetch_linkedin_description lib job_id st) = Inr description)
   \<and> (\<forall>e st1. job_id \<noteq> [] \<and> try_block lib job_id (LINKEDIN_GUEST_API_URL job_id) st = (Inl e, st1)
        \<longrightarrow> (\<exists>l m. fetch_linkedin_description lib job_id st = (Inr None, emit (Log l m) st1)))
   \<and> (\<forall>e w. job_id \<noteq> [] \<and> requests_get lib (LINKEDIN_GUEST_API_URL job_id) (world st) = (Inl e, w)
        \<longrightarrow> fetch_linkedin_description lib job_id st =
              (Inr None,
               emit (if e = Timeout then Log WARNING (TimeoutFetching job_id)
                     else if e = RequestException then Log ERROR (RequestError job_id e)
                     else Log ERROR (UnexpectedError job_id e))
                 ((emit (HttpGet (LINKEDIN_GUEST_API_URL job_id)) st)\<lparr>world := w\<rparr>)))
   \<and> (\<forall>rsp w. job_id \<noteq> [] \<and> requests_get lib (LINKEDIN_GUEST_API_URL job_id) (world st) = (Inr rsp, w)
        \<longrightarrow> (status_code rsp = 404 \<longrightarrow>
               fetch_linkedin_description lib job_id st =
                 (Inr None, emit (Log DEBUG (JobNotFound job_id))
                              ((emit (HttpGet (LINKEDIN_GUEST_API_URL job_id)) st)\<lparr>world := w\<rparr>)))
          \<and> (status_code rsp = 429 \<longrightarrow>
               fetch_linkedin_description lib job_id st =
                 (Inr None, emit (Log WARNING (RateLimited job_id))
                              ((emit (HttpGet (LINKEDIN_GUEST_API_URL job_id)) st)\<lparr>world := w\<rparr>))))"
proof (intro conjI allI impI)
  show "\<exists>description. fst (fetch_linkedin_description lib job_id st) = Inr description"
  proof (cases "job_id = []")
    case True
    then show ?thesis by (simp add: fetch_linkedin_description_def)
  next
    case False
    obtain r st' where f: "fetch_linkedin_description lib job_id st = (r, st')"
      by (cases "fetch_linkedin_description lib job_id st")
    from fetch_linkedin_description_frame [OF f False] show ?thesis using f by auto
  qed
next
  fix e st1
  assume a: "job_id \<noteq> [] \<and> try_block lib job_id (LINKEDIN_GUEST_API_URL job_id) st = (Inl e, st1)"
  then have "fetch_linkedin_description lib job_id st =
       (case e of
          Timeout \<Rightarrow> (Inr None, emit (Log WARNING (TimeoutFetching job_id)) st1)
        | RequestException \<Rightarrow>
            (Inr None, emit (Log ERROR (RequestError job_id RequestException)) st1)
        | _ \<Rightarrow> (Inr None, emit (Log ERROR (UnexpectedError job_id e)) st1))"
    using fetch_linkedin_description_handlers [of job_id lib st "Inl e" st1]
    by (cases e) simp_all
  then show "\<exists>l m. fetch_linkedin_description lib job_id st = (Inr None, emit (Log l m) st1)"
    by (cases e) auto
next
  fix e w
  assume a: "job_id \<noteq> [] \<and> requests_get lib (LINKEDIN_GUEST_API_URL job_id) (world st) = (Inl e, w)"
  then have "try_block lib job_id (LINKEDIN_GUEST_API_URL job_id) st =
      (Inl e, (emit (HttpGet (LINKEDIN_GUEST_API_URL job_id)) st)\<lparr>world := w\<rparr>)"
    by (intro try_block_raised) simp
  from fetch_linkedin_description_handlers [OF _ this] a
  show "fetch_linkedin_description lib job_id st =
              (Inr None,
               emit (if e = Timeout then Log WARNING (TimeoutFetching job_id)
                     else if e = RequestException then Log ERROR (RequestError job_id e)
                     else Log ERROR (UnexpectedError job_id e))
                 ((emit (HttpGet (LINKEDIN_GUEST_API_URL job_id)) st)\<lparr>world := w\<rparr>))"
    by (cases e) simp_all
next
  fix rsp w
  assume a: "job_id \<noteq> [] \<and> requests_get lib (LINKEDIN_GUEST_API_URL job_id) (world st) = (Inr rsp, w)"
    and s: "status_code rsp = 404"
  from a s have "try_block lib job_id (LINKEDIN_GUEST_API_URL job_id) st =
       (Inr None, emit (Log DEBUG (JobNotFound job_id))
          ((emit (HttpGet (LINKEDIN_GUEST_API_URL job_id)) st)\<lparr>world := w\<rparr>))"
    by (intro try_block_404) simp_all
  from fetch_linkedin_description_handlers [OF _ this] a
  show "fetch_linkedin_description lib job_id st =
                 (Inr None, emit (Log DEBUG (JobNotFound job_id))
                              ((emit (HttpGet (LINKEDIN_GUEST_API_URL job_id)) st)\<lparr>world := w\<rparr>))"
    by simp
next
  fix rsp w
  assume a: "job_id \<noteq> [] \<and> requests_get lib (LINKEDIN_GUEST_API_URL job_id) (world st) = (Inr rsp, w)"
    and s: "status_code rsp = 429"
  from a s have "try_block lib job_id (LINKEDIN_GUEST_API_URL job_id) st =
       (Inr None, emit (Log WARNING (RateLimited job_id))
          ((emit (HttpGet (LINKEDIN_GUEST_API_URL job_id)) st)\<lparr>world := w\<rparr>))"
    by (intro try_block_429) simp_all
  from fetch_linkedin_description_handlers [OF _ this] a
  show "fetch_linkedin_description lib job_id st =
                 (Inr None, emit (Log WARNING (RateLimited job_id))
                              ((emit (HttpGet (LINKEDIN_GUEST_API_URL job_id)) st)\<lparr>world := w\<rparr>))"
    by simp
qed

lemma demo_get_simps:
  "requests_get demo_library (LINKEDIN_GUEST_API_URL ''404'') w
     = (Inr \<lparr>status_code = 404, response_text = []\<rparr>, Suc w)"
  "requests_get demo_library (LINKEDIN_GUEST_API_URL ''429'') w
     = (Inr \<lparr>status_code = 429, response_text = []\<rparr>, Suc w)"
  "requests_get demo_library (LINKEDIN_GUEST_API_URL ''201'') w
     = (Inr \<lparr>status_code = 201, response_text = demo_page\<rparr>, Suc w)"
  "requests_get demo_library (LINKEDIN_GUEST_API_URL ''7'') w = (Inl Timeout, Suc w)"
  "requests_get demo_library (LINKEDIN_GUEST_API_URL ''1234567890'') w
     = (Inr \<lparr>status_code = 200, response_text = demo_page\<rparr>, Suc w)"
  "requests_get demo_library (LINKEDIN_GUEST_API_URL ''555'') w
     = (Inr \<lparr>status_code = 200, response_text = blank_page\<rparr>, Suc w)"
  by (simp_all add: demo_library_def demo_get_def LINKEDIN_GUEST_API_URL_def)

theorem fetch_linkedin_description_never_raises_witness:
  "fetch_linkedin_description demo_library ''404'' (demo_state (\<lambda>r. Map.empty))
     = (Inr None, \<lparr>world = 1,
          trace = [HttpGet (LINKEDIN_GUEST_API_URL ''404''), Log DEBUG (JobNotFound ''404'')],
          heap = (\<lambda>r. Map.empty)\<rparr>)
   \<and> fetch_linkedin_description demo_library ''429'' (demo_state (\<lambda>r. Map.empty))
     = (Inr None, \<lparr>world = 1,
          trace = [HttpGet (LINKEDIN_GUEST_API_URL ''429''), Log WARNING (RateLimited ''429'')],
          heap = (\<lambda>r. Map.empty)\<rparr>)
   \<and> fetch_linkedin_description demo_library ''7'' (demo_state (\<lambda>r. Map.empty))
     = (Inr None, \<lparr>world = 1,
          trace = [HttpGet (LINKEDIN_GUEST_API_URL ''7''), Log WARNING (TimeoutFetching ''7'')],
          heap = (\<lambda>r. Map.empty)\<rparr>)"
proof -
  let ?st = "demo_state (\<lambda>r. Map.empty)"
  note t = fetch_linkedin_description_never_raises [of demo_library _ ?st]
  have w: "world ?st = 0" by (simp add: demo_state_def)
  have a: "fetch_linkedin_description demo_library ''404'' ?st
     = (Inr None, emit (Log DEBUG (JobNotFound ''404''))
                              ((emit (HttpGet (LINKEDIN_GUEST_API_URL ''404'')) ?st)\<lparr>world := 1\<rparr>))"
    using t [of "''404''"] demo_get_simps(1) [of 0] w by simp
  have b: "fetch_linkedin_description demo_library ''429'' ?st
     = (Inr None, emit (Log WARNING (RateLimited ''429''))
                              ((emit (HttpGet (LINKEDIN_GUEST_API_URL ''429'')) ?st)\<lparr>world := 1\<rparr>))"
    using t [of "''429''"] demo_get_simps(2) [of 0] w by simp
  have c: "fetch_linkedin_description demo_library ''7'' ?st
     = (Inr None, emit (Log WARNING (TimeoutFetching ''7''))
                              ((emit (HttpGet (LINKEDIN_GUEST_API_URL ''7'')) ?st)\<lparr>world := 1\<rparr>))"
    using t [of "''7''"] demo_get_simps(4) [of 0] w by simp
  show ?thesis unfolding a b c by (simp add: emit_def demo_state_def)
qed

text \<open>
  C3, as the code has it. For every status other than 404 and 429: a status that is not
  200 is logged as a warning and gives no result, with no parse of the body; on status
  200 the body is parsed as HTML and the primary container class
  \<open>show-more-less-html__markup\<close> is looked for first, and the normalized markup of the
  element found is the result.
\<close>

theorem fetch_linkedin_description_by_status:
  assumes "job_id \<noteq> []"
    and "requests_get lib (LINKEDIN_GUEST_API_URL job_id) (world st) = (Inr rsp, w)"
    and "status_code rsp \<noteq> 404" and "status_code rsp \<noteq> 429"
  shows "(status_code rsp \<noteq> 200 \<longrightarrow>
            fetch_linkedin_description lib job_id st =
              (Inr None, emit (Log WARNING (FailedToFetch job_id (status_code rsp)))
                           ((emit (HttpGet (LINKEDIN_GUEST_API_URL job_id)) st)\<lparr>world := w\<rparr>)))
       \<and> (status_code rsp = 200 \<longrightarrow>
            (\<exists>evs. trace (snd (fetch_linkedin_description lib job_id st)) =
                     trace st @ [HttpGet (LINKEDIN_GUEST_API_URL job_id), Parse (response_text rsp)] @ evs)
            \<and> (\<forall>soup. BeautifulSoup lib (response_text rsp) = Inr soup \<longrightarrow>
                 (\<exists>evs. trace (snd (fetch_linkedin_description lib job_id st)) =
                          trace st @ [HttpGet (LINKEDIN_GUEST_API_URL job_id),
                                      Parse (response_text rsp),
                                      Find ''show-more-less-html__markup''] @ evs)
                 \<and> (\<forall>description_div t.
                       soup_find lib soup ''show-more-less-html__markup'' = Inr (Some description_div)
                       \<and> clean_html_text lib description_div = Inr t
                       \<longrightarrow> fst (fetch_linkedin_description lib job_id st) = Inr (Some t))))"
proof (intro conjI impI allI)
  let ?url = "LINKEDIN_GUEST_API_URL job_id"
  let ?st2 = "(emit (HttpGet ?url) st)\<lparr>world := w\<rparr>"
  let ?st3 = "emit (Parse (response_text rsp)) ?st2"
  let ?st4 = "emit (Find ''show-more-less-html__markup'') ?st3"
  {
    assume "status_code rsp \<noteq> 200"
    then have "try_block lib job_id ?url st =
        (Inr None, emit (Log WARNING (FailedToFetch job_id (status_code rsp))) ?st2)"
      using assms by (intro try_block_not_200) simp_all
    from fetch_linkedin_description_handlers [OF assms(1) this]
    show "fetch_linkedin_description lib job_id st =
              (Inr None, emit (Log WARNING (FailedToFetch job_id (status_code rsp))) ?st2)"
      by simp
  }
  assume ok: "status_code rsp = 200"
  note tb = try_block_200 [OF assms(2) ok, of job_id]
  obtain a st1 where t: "try_block lib job_id ?url st = (a, st1)"
    by (cases "try_block lib job_id ?url st")
  note fh = fetch_linkedin_description_handlers [OF assms(1) t]
  have tail: "\<exists>evs. trace (snd (fetch_linkedin_description lib job_id st)) = trace st1 @ evs"
    using fh by (cases a) (auto split: exn.splits)
  have t3: "trace ?st3 = trace st @ [HttpGet ?url, Parse (response_text rsp)]" by simp
  have t4: "trace ?st4 = trace st @ [HttpGet ?url, Parse (response_text rsp),
      Find ''show-more-less-html__markup'']" by simp
  have "\<exists>evs. trace st1 = trace ?st3 @ evs"
  proof (cases "BeautifulSoup lib (response_text rsp)")
    case (Inl e)
    then have "st1 = ?st3" using tb t by simp
    then show ?thesis by simp
  next
    case soup: (Inr soup)
    show ?thesis
    proof (cases "soup_find lib soup ''show-more-less-html__markup''")
      case (Inl e)
      then have "st1 = ?st4" using tb t soup by simp
      then show ?thesis by simp
    next
      case found: (Inr found)
      show ?thesis
      proof (cases found)
        case (Some el)
        then have "st1 = ?st4" using tb t soup found by simp
        then show ?thesis by simp
      next
        case None
        then have "try_fallbacks lib soup job_id fallback_selectors ?st4 = (a, st1)"
          using tb t soup found by simp
        from try_fallbacks_frame [OF this] obtain evs where "trace st1 = trace ?st4 @ evs"
          by blast
        then show ?thesis by simp
      qed
    qed
  qed
  then obtain evs3 where e3: "trace st1 = trace ?st3 @ evs3" by blast
  from tail obtain evs where "trace (snd (fetch_linkedin_description lib job_id st)) = trace st1 @ evs"
    by blast
  then have "trace (snd (fetch_linkedin_description lib job_id st)) =
       trace st @ [HttpGet ?url, Parse (response_text rsp)] @ (evs3 @ evs)"
    using e3 t3 by simp
  then show "\<exists>evs. trace (snd (fetch_linkedin_description lib job_id st)) =
                     trace st @ [HttpGet ?url, Parse (response_text rsp)] @ evs"
    by blast
  fix soup
  assume soup: "BeautifulSoup lib (response_text rsp) = Inr soup"
  have "\<exists>evs. trace st1 = trace ?st4 @ evs"
  proof (cases "soup_find lib soup ''show-more-less-html__markup''")
    case (Inl e)
    then have "st1 = ?st4" using tb t soup by simp
    then show ?thesis by simp
  next
    case found: (Inr found)
    show ?thesis
    proof (cases found)
      case (Some el)
      then have "st1 = ?st4" using tb t soup found by simp
      then show ?thesis by simp
    next
      case None
      then have "try_fallbacks lib soup job_id fallback_selectors ?st4 = (a, st1)"
        using tb t soup found by simp
      from try_fallbacks_frame [OF this] obtain evs where "trace st1 = trace ?st4 @ evs"
        by blast
      then show ?thesis by simp
    qed
  qed
  then obtain evs4 where e4: "trace st1 = trace ?st4 @ evs4" by blast
  from tail obtain evs where "trace (snd (fetch_linkedin_description lib job_id st)) = trace st1 @ evs"
    by blast
  then have "trace (snd (fetch_linkedin_description lib job_id st)) =
       trace st @ [HttpGet ?url, Parse (response_text rsp), Find ''show-more-less-html__markup'']
         @ (evs4 @ evs)"
    using e4 t4 by simp
  then show "\<exists>evs. trace (snd (fetch_linkedin_description lib job_id st)) =
       trace st @ [HttpGet ?url, Parse (response_text rsp), Find ''show-more-less-html__markup'']
         @ evs"
    by blast
  fix description_div t
  assume f: "soup_find lib soup ''show-more-less-html__markup'' = Inr (Some description_div)
     \<and> clean_html_text lib description_div = Inr t"
  then have "a = Inr (Some t)" using tb t soup by (simp add: return_cleaned_def)
  then show "fst (fetch_linkedin_description lib job_id st) = Inr (Some t)"
    using fh by simp
qed

lemma demo_clean_page: "clean_html_text demo_library demo_page = Inr ''Hello world''"
  by (simp add: clean_html_text_def demo_library_def demo_get_text_def demo_page_def
      clean_lines_def newline_def py_split_def isspace_def whitespace_def py_strip_def)

theorem fetch_linkedin_description_by_status_witness:
  "fetch_linkedin_description demo_library ''201'' (demo_state (\<lambda>r. Map.empty))
     = (Inr None, \<lparr>world = 1,
          trace = [HttpGet (LINKEDIN_GUEST_API_URL ''201''),
                   Log WARNING (FailedToFetch ''201'' 201)],
          heap = (\<lambda>r. Map.empty)\<rparr>)
   \<and> fst (fetch_linkedin_description demo_library ''1234567890'' (demo_state (\<lambda>r. Map.empty)))
     = Inr (Some ''Hello world'')"
proof -
  let ?st = "demo_state (\<lambda>r. Map.empty)"
  have w: "world ?st = 0" by (simp add: demo_state_def)
  have "fetch_linkedin_description demo_library ''201'' ?st
     = (Inr None, emit (Log WARNING (FailedToFetch ''201'' 201))
          ((emit (HttpGet (LINKEDIN_GUEST_API_URL ''201'')) ?st)\<lparr>world := 1\<rparr>))"
    using fetch_linkedin_description_by_status [of "''201''" demo_library ?st
        "\<lparr>status_code = 201, response_text = demo_page\<rparr>" 1]
      demo_get_simps(3) [of 0] w by simp
  then have a: "fetch_linkedin_description demo_library ''201'' ?st
     = (Inr None, \<lparr>world = 1,
          trace = [HttpGet (LINKEDIN_GUEST_API_URL ''201''),
                   Log WARNING (FailedToFetch ''201'' 201)],
          heap = (\<lambda>r. Map.empty)\<rparr>)"
    by (simp add: emit_def demo_state_def)
  have f: "soup_find demo_library demo_page ''show-more-less-html__markup'' = Inr (Some demo_page)"
    by (simp add: demo_library_def demo_find_def)
  have p: "BeautifulSoup demo_library demo_page = Inr demo_page"
    by (simp add: demo_library_def)
  have b: "fst (fetch_linkedin_description demo_library ''1234567890'' ?st) = Inr (Some ''Hello world'')"
    using fetch_linkedin_description_by_status [of "''1234567890''" demo_library ?st
        "\<lparr>status_code = 200, response_text = demo_page\<rparr>" 1]
      demo_get_simps(5) [of 0] w f p demo_clean_page by simp
  show ?thesis using a b by simp
qed

text \<open>
  Status 201 is in the 2xx range. The page answered with it holds the primary container,
  and the fetcher neither parses it nor looks for the container: it logs the warning and
  returns no result.
\<close>

theorem status_201_counterexample:
  "requests_get demo_library (LINKEDIN_GUEST_API_URL ''201'') 0
     = (Inr \<lparr>status_code = 201, response_text = demo_page\<rparr>, 1)
   \<and> (201 :: int) \<in> {200..<300}
   \<and> soup_find demo_library demo_page ''show-more-less-html__markup'' = Inr (Some demo_page)
   \<and> fetch_linkedin_description demo_library ''201'' (demo_state (\<lambda>r. Map.empty))
     = (Inr None, \<lparr>world = 1,
          trace = [HttpGet (LINKEDIN_GUEST_API_URL ''201''),
                   Log WARNING (FailedToFetch ''201'' 201)],
          heap = (\<lambda>r. Map.empty)\<rparr>)"
proof -
  let ?st = "demo_state (\<lambda>r. Map.empty)"
  let ?url = "LINKEDIN_GUEST_API_URL ''201''"
  have g: "requests_get demo_library ?url (world ?st)
     = (Inr \<lparr>status_code = 201, response_text = demo_page\<rparr>, 1)"
    by (simp add: demo_get_simps demo_state_def)
  have "try_block demo_library ''201'' ?url ?st =
       (Inr None, emit (Log WARNING (FailedToFetch ''201'' 201))
                    ((emit (HttpGet ?url) ?st)\<lparr>world := 1\<rparr>))"
    using try_block_not_200 [OF g, of "''201''"] by simp
  from fetch_linkedin_description_handlers [OF _ this]
  have "fetch_linkedin_description demo_library ''201'' ?st =
       (Inr None, emit (Log WARNING (FailedToFetch ''201'' 201))
                    ((emit (HttpGet ?url) ?st)\<lparr>world := 1\<rparr>))"
    by simp
  then have "fetch_linkedin_description demo_library ''201'' ?st
     = (Inr None, \<lparr>world = 1,
          trace = [HttpGet ?url, Log WARNING (FailedToFetch ''201'' 201)],
          heap = (\<lambda>r. Map.empty)\<rparr>)"
    by (simp add: emit_def demo_state_def)
  moreover have "soup_find demo_library demo_page ''show-more-less-html__markup'' = Inr (Some demo_page)"
    by (simp add: demo_library_def demo_find_def)
  ultimately show ?thesis using g by (simp add: demo_state_def)
qed

section \<open>Properties of the selection\<close>

lemma py_strip_empty_iff: "py_strip s = [] \<longleftrightarrow> (\<forall>c\<in>set s. isspace c)"
proof
  assume "py_strip s = []"
  then have a: "\<forall>c\<in>set (dropWhile isspace s). isspace c"
    by (simp add: py_strip_def dropWhile_eq_Nil_conv)
  show "\<forall>c\<in>set s. isspace c"
  proof (cases "dropWhile isspace s")
    case Nil
    then show ?thesis by (simp add: dropWhile_eq_Nil_conv)
  next
    case (Cons c cs)
    then have "dropWhile isspace s \<noteq> []" by simp
    then have "\<not> isspace (hd (dropWhile isspace s))" by (rule hd_dropWhile)
    then show ?thesis using a Cons by simp
  qed
next
  assume "\<forall>c\<in>set s. isspace c"
  then have d: "dropWhile isspace s = []" by (simp add: dropWhile_eq_Nil_conv)
  show "py_strip s = []" by (simp only: py_strip_def d rev.simps dropWhile.simps)
qed

lemma py_lower_linkedin: "py_lower ''linkedin'' = ''linkedin''"
  by (simp add: py_lower_def lower_char_def capitals_def smalls_def)

lemma site_test: "(py_lower (py_str (dict_get d ''site'' (PStr []))) = ''linkedin'') = site_is_linkedin d"
proof (cases "d ''site''")
  case None
  then show ?thesis by (simp add: site_is_linkedin_def dict_get_def py_str_def py_lower_def)
next
  case (Some v)
  then show ?thesis
    by (simp add: site_is_linkedin_def caseless_equal_def dict_get_def py_lower_linkedin)
qed

lemma match_at_nonempty: "match_at lit s = Some ds \<Longrightarrow> ds \<noteq> []"
  by (auto simp: match_at_def Let_def split: if_splits)

lemma re_search_nonempty: "re_search lit s = Some ds \<Longrightarrow> ds \<noteq> []"
  by (induction s) (auto dest: match_at_nonempty split: option.splits)

lemma first_match_nonempty: "first_match ps s = Some ds \<Longrightarrow> ds \<noteq> []"
  by (induction ps) (auto dest: re_search_nonempty split: option.splits)

lemma extract_nonempty: "extract_linkedin_job_id v = Inr (Some job_id) \<Longrightarrow> job_id \<noteq> []"
  by (auto simp: extract_linkedin_job_id_def dest: first_match_nonempty
      split: if_splits pyval.splits)

lemma no_description_text:
  "text_or_none (d ''description'') \<Longrightarrow>
     no_description (dict_get d ''description'' (PStr [])) = Inr (description_blank d)"
proof (cases "d ''description''")
  case None
  then show ?thesis by (simp add: no_description_def dict_get_def description_blank_def truthy_def)
next
  case (Some v)
  assume "text_or_none (d ''description'')"
  then show ?thesis using Some
    by (cases v)
      (auto simp: no_description_def dict_get_def description_blank_def truthy_def
        text_or_none_def py_strip_empty_iff list_all_iff)
qed

lemma job_url_of_text:
  assumes "text_fields d"
  shows "job_url_of d = PNone \<or> (\<exists>s. job_url_of d = PStr s)"
proof -
  have a: "text_or_none x \<Longrightarrow> dict_get_opt = (case x of None \<Rightarrow> PStr [] | Some v \<Rightarrow> v) \<Longrightarrow>
      dict_get_opt = PNone \<or> (\<exists>s. dict_get_opt = PStr s)" for x dict_get_opt
    by (cases x) (auto simp: text_or_none_def split: pyval.splits)
  have "dict_get d ''link'' (PStr []) = PNone \<or> (\<exists>s. dict_get d ''link'' (PStr []) = PStr s)"
    using assms a [of "d ''link''"] by (simp add: text_fields_def dict_get_def)
  moreover have "dict_get d ''job_url'' (PStr []) = PNone \<or> (\<exists>s. dict_get d ''job_url'' (PStr []) = PStr s)"
    using assms a [of "d ''job_url''"] by (simp add: text_fields_def dict_get_def)
  ultimately show ?thesis by (auto simp: job_url_of_def py_or_def)
qed

lemma extract_text: "v = PNone \<or> (\<exists>s. v = PStr s) \<Longrightarrow> \<exists>r. extract_linkedin_job_id v = Inr r"
  by (auto simp: extract_linkedin_job_id_def truthy_def)

lemma select_job_text:
  assumes "text_fields d"
  shows "\<exists>r. select_job d = Inr r \<and> (r \<noteq> None \<longleftrightarrow> targeted d)
     \<and> (\<forall>job_id. r = Some job_id \<longrightarrow> yields_identifier d job_id \<and> job_id \<noteq> [])"
proof -
  from assms have t: "text_or_none (d ''description'')" by (simp add: text_fields_def)
  from extract_text [OF job_url_of_text [OF assms]]
  obtain x where x: "extract_linkedin_job_id (job_url_of d) = Inr x" by blast
  have ne: "\<And>job_id. x = Some job_id \<Longrightarrow> job_id \<noteq> []" using x extract_nonempty by blast
  have "select_job d = Inr (if site_is_linkedin d \<and> description_blank d then x else None)"
    using x ne no_description_text [of d] t
    by (cases x) (auto simp: select_job_def site_test Let_def)
  moreover have "has_identifier d \<longleftrightarrow> x \<noteq> None"
    using x by (cases x) (simp_all add: has_identifier_def)
  ultimately show ?thesis using x ne by (auto simp: targeted_def yields_identifier_def)
qed

text \<open>The records at the positions \<open>i, i + 1, ...\<close> that are targeted, with their identifiers.\<close>

lemma upt_filter_shift:
  "map ((+) i) (filter P [0..<Suc n]) =
     (if P 0 then [i] else []) @ map ((+) (Suc i)) (filter (P \<circ> Suc) [0..<n])"
proof -
  have "[0..<Suc n] = 0 # map Suc [0..<n]" by (simp add: upt_conv_Cons map_Suc_upt del: upt_Suc)
  then show ?thesis by (simp add: filter_map comp_def del: upt_Suc)
qed

lemma scan_jobs_spec:
  assumes "\<forall>r\<in>set rs. text_fields (h r)"
  shows "\<exists>new. scan_jobs h rs i acc = Inr (acc @ new)
     \<and> map fst new = map ((+) i) (filter (\<lambda>k. targeted (h (rs ! k))) [0..<length rs])
     \<and> (\<forall>(j, job_id)\<in>set new. i \<le> j \<and> j < i + length rs
           \<and> yields_identifier (h (rs ! (j - i))) job_id \<and> job_id \<noteq> [])"
  using assms
proof (induction rs arbitrary: i acc)
  case Nil
  then show ?case by simp
next
  case (Cons r rs)
  from Cons.prems have tf: "text_fields (h r)" and rest: "\<forall>r\<in>set rs. text_fields (h r)" by auto
  from select_job_text [OF tf] obtain x where x: "select_job (h r) = Inr x"
    and xt: "x \<noteq> None \<longleftrightarrow> targeted (h r)"
    and xi: "\<forall>job_id. x = Some job_id \<longrightarrow> yields_identifier (h r) job_id \<and> job_id \<noteq> []" by blast
  let ?acc' = "acc @ (case x of None \<Rightarrow> [] | Some job_id \<Rightarrow> [(i, job_id)])"
  have step: "scan_jobs h (r # rs) i acc = scan_jobs h rs (Suc i) ?acc'"
    using x by (cases x) simp_all
  from Cons.IH [OF rest, of "Suc i" ?acc'] obtain new where
    n1: "scan_jobs h rs (Suc i) ?acc' = Inr (?acc' @ new)"
    and n2: "map fst new = map ((+) (Suc i)) (filter (\<lambda>k. targeted (h (rs ! k))) [0..<length rs])"
    and n3: "\<forall>(j, job_id)\<in>set new. Suc i \<le> j \<and> j < Suc i + length rs
           \<and> yields_identifier (h (rs ! (j - Suc i))) job_id \<and> job_id \<noteq> []" by blast
  let ?new = "(case x of None \<Rightarrow> [] | Some job_id \<Rightarrow> [(i, job_id)]) @ new"
  have a: "scan_jobs h (r # rs) i acc = Inr (acc @ ?new)" using step n1 by simp
  have b: "map fst ?new = map ((+) i) (filter (\<lambda>k. targeted (h ((r # rs) ! k))) [0..<length (r # rs)])"
    using upt_filter_shift [of i "\<lambda>k. targeted (h ((r # rs) ! k))" "length rs"] n2 xt
    by (cases x) (simp_all add: comp_def)
  have c: "\<forall>(j, job_id)\<in>set ?new. i \<le> j \<and> j < i + length (r # rs)
           \<and> yields_identifier (h ((r # rs) ! (j - i))) job_id \<and> job_id \<noteq> []"
  proof (intro ballI, clarify)
    fix j job_id
    assume m: "(j, job_id) \<in> set ?new"
    show "i \<le> j \<and> j < i + length (r # rs)
           \<and> yields_identifier (h ((r # rs) ! (j - i))) job_id \<and> job_id \<noteq> []"
    proof (cases "(j, job_id) \<in> set new")
      case True
      with n3 have k: "Suc i \<le> j" "j < Suc i + length rs"
        "yields_identifier (h (rs ! (j - Suc i))) job_id" "job_id \<noteq> []" by auto
      then have "j - i = Suc (j - Suc i)" by simp
      then show ?thesis using k by simp
    next
      case False
      with m have "x = Some job_id" "j = i" by (cases x; simp)+
      then show ?thesis using xi by simp
    qed
  qed
  from a b c show ?case by blast
qed

section \<open>Properties of the fetch loop\<close>

lemma is_pacing_simps [simp]:
  "is_pacing (HttpGet u)" "is_pacing Sleep" "\<not> is_pacing (Log l m)" "\<not> is_pacing (Progress k n)"
  "\<not> is_pacing (Parse b)" "\<not> is_pacing (Find c)"
  by (simp_all add: is_pacing_def)

lemma is_progress_simps [simp]:
  "is_progress (Progress k n)" "\<not> is_progress (HttpGet u)" "\<not> is_progress Sleep"
  "\<not> is_progress (Log l m)" "\<not> is_progress (Parse b)" "\<not> is_progress (Find c)"
  by (simp_all add: is_progress_def)

lemma report_progress_None [simp]: "report_progress None k n st = st"
  by (simp add: report_progress_def)

lemma report_progress_Some:
  "f k n (world st) = (raised, w) \<Longrightarrow>
     report_progress (Some f) k n st =
       st\<lparr>world := w,
          trace := trace st @ Progress k n #
                     (case raised of None \<Rightarrow> [] | Some e \<Rightarrow> [Log DEBUG (ProgressCallbackError e)])\<rparr>"
  by (cases raised) (simp_all add: report_progress_def emit_def)

lemma report_progress_frame:
  "heap (report_progress cb k n st) = heap st
   \<and> (\<exists>evs. trace (report_progress cb k n st) = trace st @ evs
          \<and> http_gets evs = [] \<and> filter is_pacing evs = []
          \<and> filter is_progress evs = (case cb of None \<Rightarrow> [] | Some f \<Rightarrow> [Progress k n]))"
proof (cases cb)
  case None
  then show ?thesis by simp
next
  case (Some f)
  obtain raised w where c: "f k n (world st) = (raised, w)" by (cases "f k n (world st)")
  show ?thesis unfolding Some report_progress_Some [of f k n st raised w, OF c]
    by (cases raised) simp_all
qed

text \<open>What one round of the loop does.\<close>

lemma fetch_one_unfold:
  assumes "fetch_linkedin_description lib job_id (report_progress cb (idx + 1) n st) = (Inr description, st2)"
  shows "fetch_one lib cb jobs n idx (job_index, job_id) (st, fetched, failed) =
     (case (case description of
              None \<Rightarrow> Inr (st2, fetched, failed + 1)
            | Some d \<Rightarrow>
                if d \<noteq> []
                then (if job_index < length jobs
                      then Inr (emit (Log DEBUG (FetchedDescription job_id (length d)))
                                  (set_description (jobs ! job_index) d st2),
                                fetched + 1, failed)
                      else Inl IndexError)
                else Inr (st2, fetched, failed + 1)) of
        Inl e \<Rightarrow> Inl e
      | Inr (st3, fetched', failed') \<Rightarrow>
          Inr (if idx < n - 1 then emit Sleep st3 else st3, fetched', failed'))"
  using assms by (simp add: fetch_one_def)

lemma fetch_one_spec:
  assumes "job_index < length jobs" and "job_id \<noteq> []"
  shows "\<exists>st' fetched' failed' evs.
       fetch_one lib cb jobs n idx (job_index, job_id) (st, fetched, failed)
         = Inr (st', fetched', failed')
     \<and> trace st' = trace st @ evs
     \<and> http_gets evs = [LINKEDIN_GUEST_API_URL job_id]
     \<and> filter is_pacing evs =
          HttpGet (LINKEDIN_GUEST_API_URL job_id) # (if idx < n - 1 then [Sleep] else [])
     \<and> filter is_progress evs = (case cb of None \<Rightarrow> [] | Some f \<Rightarrow> [Progress (idx + 1) n])
     \<and> fetched' + failed' = fetched + failed + 1
     \<and> (\<forall>r. r \<noteq> jobs ! job_index \<longrightarrow> heap st' r = heap st r)
     \<and> (\<forall>r k. k \<noteq> ''description'' \<longrightarrow> heap st' r k = heap st r k)
     \<and> ((\<forall>s. no_result (fst (fetch_linkedin_description lib job_id s)))
          \<longrightarrow> heap st' = heap st \<and> fetched' = fetched \<and> failed' = failed + 1)"
proof -
  let ?st1 = "report_progress cb (idx + 1) n st"
  let ?url = "LINKEDIN_GUEST_API_URL job_id"
  from report_progress_frame [of cb "idx + 1" n st] obtain evs1 where
    h1: "heap ?st1 = heap st" and t1: "trace ?st1 = trace st @ evs1"
    and g1: "http_gets evs1 = []" and p1: "filter is_pacing evs1 = []"
    and q1: "filter is_progress evs1 = (case cb of None \<Rightarrow> [] | Some f \<Rightarrow> [Progress (idx + 1) n])"
    by blast
  obtain r st2 where f: "fetch_linkedin_description lib job_id ?st1 = (r, st2)"
    by (cases "fetch_linkedin_description lib job_id ?st1")
  from fetch_linkedin_description_frame [OF f assms(2)] obtain description evs2 where
    r: "r = Inr description" and h2: "heap st2 = heap ?st1"
    and t2: "trace st2 = trace ?st1 @ HttpGet ?url # evs2" and e2: "list_all fetcher_event evs2"
    by blast
  note u = fetch_one_unfold [OF f [unfolded r], of jobs job_index fetched failed]
  let ?pause = "if idx < n - 1 then [Sleep] else []"
  have pz: "\<And>s. trace (if idx < n - 1 then emit Sleep s else s) = trace s @ ?pause"
    "\<And>s. heap (if idx < n - 1 then emit Sleep s else s) = heap s" by simp_all
  note fe = fetcher_event_no_gets [OF e2] fetcher_event_no_pacing [OF e2]
    fetcher_event_no_progress [OF e2]
  show ?thesis
  proof (cases "\<exists>d. description = Some d \<and> d \<noteq> []")
    case True
    then obtain d where d: "description = Some d" "d \<noteq> []" by blast
    let ?st3 = "emit (Log DEBUG (FetchedDescription job_id (length d)))
                  (set_description (jobs ! job_index) d st2)"
    let ?st' = "if idx < n - 1 then emit Sleep ?st3 else ?st3"
    let ?evs = "evs1 @ HttpGet ?url # evs2 @ [Log DEBUG (FetchedDescription job_id (length d))] @ ?pause"
    have res: "fetch_one lib cb jobs n idx (job_index, job_id) (st, fetched, failed)
         = Inr (?st', fetched + 1, failed)"
      using u d assms(1) by simp
    have tr: "trace ?st' = trace st @ ?evs"
      using t1 t2 by (simp add: set_description_def)
    have hp: "heap ?st' = (heap st)(jobs ! job_index := (heap st (jobs ! job_index))(''description'' \<mapsto> PStr d))"
      using h1 h2 by (simp add: set_description_def)
    have "\<not> no_result (fst (fetch_linkedin_description lib job_id ?st1))"
      using f r d by (simp add: no_result_def)
    then have nr: "\<not> (\<forall>s. no_result (fst (fetch_linkedin_description lib job_id s)))"
      by blast
    have "http_gets ?evs = [?url]" using g1 fe by (simp add: http_gets_append)
    moreover have "filter is_pacing ?evs = HttpGet ?url # ?pause" using p1 fe by simp
    moreover have "filter is_progress ?evs = (case cb of None \<Rightarrow> [] | Some f \<Rightarrow> [Progress (idx + 1) n])"
      using q1 fe by simp
    moreover have "\<forall>r. r \<noteq> jobs ! job_index \<longrightarrow> heap ?st' r = heap st r" using hp by simp
    moreover have "\<forall>r k. k \<noteq> ''description'' \<longrightarrow> heap ?st' r k = heap st r k" using hp by simp
    ultimately show ?thesis using res tr nr
      by (intro exI [of _ ?st'] exI [of _ "fetched + 1"] exI [of _ failed] exI [of _ ?evs])
        (simp del: append_assoc)
  next
    case False
    let ?st' = "if idx < n - 1 then emit Sleep st2 else st2"
    let ?evs = "evs1 @ HttpGet ?url # evs2 @ ?pause"
    have res: "fetch_one lib cb jobs n idx (job_index, job_id) (st, fetched, failed)
         = Inr (?st', fetched, failed + 1)"
      using u False by (cases description) auto
    have tr: "trace ?st' = trace st @ ?evs" using t1 t2 by simp
    have hp: "heap ?st' = heap st" using h1 h2 by simp
    have "http_gets ?evs = [?url]" using g1 fe by (simp add: http_gets_append)
    moreover have "filter is_pacing ?evs = HttpGet ?url # ?pause" using p1 fe by simp
    moreover have "filter is_progress ?evs = (case cb of None \<Rightarrow> [] | Some f \<Rightarrow> [Progress (idx + 1) n])"
      using q1 fe by simp
    ultimately show ?thesis using res tr hp
      by (intro exI [of _ ?st'] exI [of _ fetched] exI [of _ "failed + 1"] exI [of _ ?evs])
        (simp del: append_assoc)
  qed
qed

lemma between_Cons: "between x (y # ys) = y # (if ys = [] then [] else x # between x ys)"
  by (cases ys) simp_all

lemma length_between: "length (filter (\<lambda>e. e = x) (between x ys)) = length ys - 1"
  if "x \<notin> set ys"
  using that
proof (induction ys rule: between.induct)
  case (3 x y z zs)
  then show ?case by auto
qed simp_all

lemma fetch_loop_spec:
  assumes "\<forall>(j, job_id)\<in>set items. j < length jobs \<and> job_id \<noteq> []"
    and "idx + length items = n"
  shows "\<exists>st' fetched' failed' evs.
       fetch_loop lib cb jobs n idx items (st, fetched, failed) = Inr (st', fetched', failed')
     \<and> trace st' = trace st @ evs
     \<and> http_gets evs = map (LINKEDIN_GUEST_API_URL \<circ> snd) items
     \<and> filter is_pacing evs = between Sleep (map (HttpGet \<circ> LINKEDIN_GUEST_API_URL \<circ> snd) items)
     \<and> filter is_progress evs =
          (case cb of None \<Rightarrow> [] | Some f \<Rightarrow> map (\<lambda>k. Progress (Suc k) n) [idx..<n])
     \<and> fetched' + failed' = fetched + failed + length items
     \<and> (\<forall>r. r \<notin> (\<lambda>(j, job_id). jobs ! j) ` set items \<longrightarrow> heap st' r = heap st r)
     \<and> (\<forall>r k. k \<noteq> ''description'' \<longrightarrow> heap st' r k = heap st r k)
     \<and> ((\<forall>(j, job_id)\<in>set items. \<forall>s. no_result (fst (fetch_linkedin_description lib job_id s)))
          \<longrightarrow> heap st' = heap st \<and> fetched' = fetched \<and> failed' = failed + length items)"
  using assms
proof (induction items arbitrary: idx st fetched failed)
  case Nil
  then have "[idx..<n] = []" by simp
  then show ?case by (auto split: option.splits)
next
  case (Cons item rest)
  obtain job_index job_id where item: "item = (job_index, job_id)" by (cases item)
  from Cons.prems item have ji: "job_index < length jobs" and jid: "job_id \<noteq> []"
    and rest: "\<forall>(j, job_id)\<in>set rest. j < length jobs \<and> job_id \<noteq> []"
    and len: "Suc idx + length rest = n" by auto
  let ?url = "LINKEDIN_GUEST_API_URL job_id"
  from fetch_one_spec [OF ji jid, of lib cb n idx st fetched failed]
  obtain st1 f1 x1 evs1 where
    a1: "fetch_one lib cb jobs n idx (job_index, job_id) (st, fetched, failed) = Inr (st1, f1, x1)"
    and a2: "trace st1 = trace st @ evs1"
    and a3: "http_gets evs1 = [?url]"
    and a4: "filter is_pacing evs1 = HttpGet ?url # (if idx < n - 1 then [Sleep] else [])"
    and a5: "filter is_progress evs1 = (case cb of None \<Rightarrow> [] | Some f \<Rightarrow> [Progress (idx + 1) n])"
    and a6: "f1 + x1 = fetched + failed + 1"
    and a7: "\<forall>r. r \<noteq> jobs ! job_index \<longrightarrow> heap st1 r = heap st r"
    and a8: "\<forall>r k. k \<noteq> ''description'' \<longrightarrow> heap st1 r k = heap st r k"
    and a9: "(\<forall>s. no_result (fst (fetch_linkedin_description lib job_id s)))
          \<longrightarrow> heap st1 = heap st \<and> f1 = fetched \<and> x1 = failed + 1"
    by (elim exE conjE) (rule that, assumption+)
  from Cons.IH [OF rest len, of st1 f1 x1]
  obtain st2 f2 x2 evs2 where
    b1: "fetch_loop lib cb jobs n (Suc idx) rest (st1, f1, x1) = Inr (st2, f2, x2)"
    and b2: "trace st2 = trace st1 @ evs2"
    and b3: "http_gets evs2 = map (LINKEDIN_GUEST_API_URL \<circ> snd) rest"
    and b4: "filter is_pacing evs2 = between Sleep (map (HttpGet \<circ> LINKEDIN_GUEST_API_URL \<circ> snd) rest)"
    and b5: "filter is_progress evs2 =
          (case cb of None \<Rightarrow> [] | Some f \<Rightarrow> map (\<lambda>k. Progress (Suc k) n) [Suc idx..<n])"
    and b6: "f2 + x2 = f1 + x1 + length rest"
    and b7: "\<forall>r. r \<notin> (\<lambda>(j, job_id). jobs ! j) ` set rest \<longrightarrow> heap st2 r = heap st1 r"
    and b8: "\<forall>r k. k \<noteq> ''description'' \<longrightarrow> heap st2 r k = heap st1 r k"
    and b9: "(\<forall>(j, job_id)\<in>set rest. \<forall>s. no_result (fst (fetch_linkedin_description lib job_id s)))
          \<longrightarrow> heap st2 = heap st1 \<and> f2 = f1 \<and> x2 = x1 + length rest"
    by (elim exE conjE) (rule that, assumption+)
  have c1: "fetch_loop lib cb jobs n idx (item # rest) (st, fetched, failed) = Inr (st2, f2, x2)"
    using a1 b1 item by simp
  have c2: "trace st2 = trace st @ (evs1 @ evs2)" using a2 b2 by simp
  have c3: "http_gets (evs1 @ evs2) = map (LINKEDIN_GUEST_API_URL \<circ> snd) (item # rest)"
    using a3 b3 item by (simp add: http_gets_append)
  have pause: "idx < n - 1 \<longleftrightarrow> rest \<noteq> []" using len by auto
  have c4: "filter is_pacing (evs1 @ evs2) =
      between Sleep (map (HttpGet \<circ> LINKEDIN_GUEST_API_URL \<circ> snd) (item # rest))"
    using a4 b4 item pause by (simp add: between_Cons)
  have upt: "[idx..<n] = idx # [Suc idx..<n]" using len by (simp add: upt_conv_Cons)
  have c5: "filter is_progress (evs1 @ evs2) =
          (case cb of None \<Rightarrow> [] | Some f \<Rightarrow> map (\<lambda>k. Progress (Suc k) n) [idx..<n])"
    using a5 b5 upt by (cases cb) simp_all
  have c6: "f2 + x2 = fetched + failed + length (item # rest)" using a6 b6 by simp
  have c7: "\<forall>r. r \<notin> (\<lambda>(j, job_id). jobs ! j) ` set (item # rest) \<longrightarrow> heap st2 r = heap st r"
    using a7 b7 item by auto
  have c8: "\<forall>r k. k \<noteq> ''description'' \<longrightarrow> heap st2 r k = heap st r k"
    using a8 b8 by simp
  have c9: "(\<forall>(j, job_id)\<in>set (item # rest). \<forall>s. no_result (fst (fetch_linkedin_description lib job_id s)))
          \<longrightarrow> heap st2 = heap st \<and> f2 = fetched \<and> x2 = failed + length (item # rest)"
    using a9 b9 item by auto
  show ?case
    by (intro exI [of _ st2] exI [of _ f2] exI [of _ x2] exI [of _ "evs1 @ evs2"] conjI
        c1 c2 c3 c4 c5 c6 c7 c8 c9)
qed

section \<open>Properties of the batch enricher\<close>

lemma fetch_descriptions_for_jobs_spec:
  assumes "\<forall>r\<in>set jobs. text_fields (heap st r)"
  shows "\<exists>sel st' evs.
       scan_jobs (heap st) jobs 0 [] = Inr sel
     \<and> map fst sel = filter (\<lambda>i. targeted (heap st (jobs ! i))) [0..<length jobs]
     \<and> (\<forall>(j, job_id)\<in>set sel. j < length jobs \<and> yields_identifier (heap st (jobs ! j)) job_id
           \<and> job_id \<noteq> [])
     \<and> fetch_descriptions_for_jobs lib cb jobs st = Inr (jobs, st')
     \<and> trace st' = trace st @ evs
     \<and> http_gets evs = map (LINKEDIN_GUEST_API_URL \<circ> snd) sel
     \<and> filter is_pacing evs = between Sleep (map (HttpGet \<circ> LINKEDIN_GUEST_API_URL \<circ> snd) sel)
     \<and> filter is_progress evs =
          (case cb of None \<Rightarrow> []
           | Some f \<Rightarrow> map (\<lambda>k. Progress (Suc k) (length sel)) [0..<length sel])
     \<and> (\<forall>r. r \<notin> (\<lambda>(j, job_id). jobs ! j) ` set sel \<longrightarrow> heap st' r = heap st r)
     \<and> (\<forall>r k. k \<noteq> ''description'' \<longrightarrow> heap st' r k = heap st r k)
     \<and> (sel = [] \<longrightarrow> st' = emit (Log INFO NoJobsNeedFetching) st)
     \<and> (sel \<noteq> [] \<longrightarrow>
          (\<exists>fetched failed.
              last evs = Log INFO (Summary fetched failed (length sel))
            \<and> fetched + failed = length sel
            \<and> ((\<forall>(j, job_id)\<in>set sel. \<forall>s. no_result (fst (fetch_linkedin_description lib job_id s)))
                 \<longrightarrow> heap st' = heap st \<and> fetched = 0 \<and> failed = length sel)))"
proof -
  from scan_jobs_spec [OF assms, of 0 "[]"] obtain sel where
    s1: "scan_jobs (heap st) jobs 0 [] = Inr sel"
    and s2: "map fst sel = map ((+) 0) (filter (\<lambda>k. targeted (heap st (jobs ! k))) [0..<length jobs])"
    and s3: "\<forall>(j, job_id)\<in>set sel. 0 \<le> j \<and> j < 0 + length jobs
           \<and> yields_identifier (heap st (jobs ! (j - 0))) job_id \<and> job_id \<noteq> []"
    by auto
  have "(+) (0::nat) = (\<lambda>k. k)" by (simp add: fun_eq_iff)
  then have t2: "map fst sel = filter (\<lambda>i. targeted (heap st (jobs ! i))) [0..<length jobs]"
    using s2 by simp
  have t3: "\<forall>(j, job_id)\<in>set sel. j < length jobs \<and> yields_identifier (heap st (jobs ! j)) job_id
           \<and> job_id \<noteq> []"
    using s3 by auto
  show ?thesis
  proof (cases "sel = []")
    case True
    let ?st' = "emit (Log INFO NoJobsNeedFetching) st"
    have r: "fetch_descriptions_for_jobs lib cb jobs st = Inr (jobs, ?st')"
      using s1 True by (simp add: fetch_descriptions_for_jobs_def)
    have tr: "trace ?st' = trace st @ [Log INFO NoJobsNeedFetching]" by simp
    show ?thesis
      apply (intro exI [of _ sel] exI [of _ ?st'] exI [of _ "[Log INFO NoJobsNeedFetching]"] conjI
          s1 t2 t3 r tr)
      using True by (simp_all split: option.splits)
  next
    case False
    let ?n = "length sel"
    let ?st1 = "emit (Log INFO (FetchingDescriptions ?n)) st"
    have items: "\<forall>(j, job_id)\<in>set sel. j < length jobs \<and> job_id \<noteq> []" using t3 by auto
    have "0 + length sel = ?n" by simp
    from fetch_loop_spec [OF items this, of lib cb ?st1 0 0]
    obtain st2 fetched failed evs where
      b1: "fetch_loop lib cb jobs ?n 0 sel (?st1, 0, 0) = Inr (st2, fetched, failed)"
      and b2: "trace st2 = trace ?st1 @ evs"
      and b3: "http_gets evs = map (LINKEDIN_GUEST_API_URL \<circ> snd) sel"
      and b4: "filter is_pacing evs = between Sleep (map (HttpGet \<circ> LINKEDIN_GUEST_API_URL \<circ> snd) sel)"
      and b5: "filter is_progress evs =
          (case cb of None \<Rightarrow> [] | Some f \<Rightarrow> map (\<lambda>k. Progress (Suc k) ?n) [0..<?n])"
      and b6: "fetched + failed = 0 + 0 + length sel"
      and b7: "\<forall>r. r \<notin> (\<lambda>(j, job_id). jobs ! j) ` set sel \<longrightarrow> heap st2 r = heap ?st1 r"
      and b8: "\<forall>r k. k \<noteq> ''description'' \<longrightarrow> heap st2 r k = heap ?st1 r k"
      and b9: "(\<forall>(j, job_id)\<in>set sel. \<forall>s. no_result (fst (fetch_linkedin_description lib job_id s)))
          \<longrightarrow> heap st2 = heap ?st1 \<and> fetched = 0 \<and> failed = 0 + length sel"
      by (elim exE conjE) (rule that, assumption+)
    let ?st' = "emit (Log INFO (Summary fetched failed ?n)) st2"
    let ?evs = "Log INFO (FetchingDescriptions ?n) # evs @ [Log INFO (Summary fetched failed ?n)]"
    have r: "fetch_descriptions_for_jobs lib cb jobs st = Inr (jobs, ?st')"
      using s1 False b1 by (simp add: fetch_descriptions_for_jobs_def Let_def)
    have tr: "trace ?st' = trace st @ ?evs" using b2 by simp
    have c3: "http_gets ?evs = map (LINKEDIN_GUEST_API_URL \<circ> snd) sel"
      using b3 by (simp add: http_gets_append)
    have c4: "filter is_pacing ?evs = between Sleep (map (HttpGet \<circ> LINKEDIN_GUEST_API_URL \<circ> snd) sel)"
      using b4 by simp
    have c5: "filter is_progress ?evs =
          (case cb of None \<Rightarrow> [] | Some f \<Rightarrow> map (\<lambda>k. Progress (Suc k) ?n) [0..<?n])"
      using b5 by simp
    have c7: "\<forall>r. r \<notin> (\<lambda>(j, job_id). jobs ! j) ` set sel \<longrightarrow> heap ?st' r = heap st r"
      using b7 by simp
    have c8: "\<forall>r k. k \<noteq> ''description'' \<longrightarrow> heap ?st' r k = heap st r k"
      using b8 by simp
    have c9: "sel = [] \<longrightarrow> ?st' = emit (Log INFO NoJobsNeedFetching) st" using False by simp
    have c10: "sel \<noteq> [] \<longrightarrow>
          (\<exists>fetched failed.
              last ?evs = Log INFO (Summary fetched failed (length sel))
            \<and> fetched + failed = length sel
            \<and> ((\<forall>(j, job_id)\<in>set sel. \<forall>s. no_result (fst (fetch_linkedin_description lib job_id s)))
                 \<longrightarrow> heap ?st' = heap st \<and> fetched = 0 \<and> failed = length sel))"
      using b6 b9 by (intro impI exI [of _ fetched] exI [of _ failed]) simp
    show ?thesis
      by (intro exI [of _ sel] exI [of _ ?st'] exI [of _ ?evs] conjI
          s1 t2 t3 r tr c3 c4 c5 c7 c8 c9 c10)
  qed
qed

lemma not_selected_untouched:
  assumes "map fst sel = filter (\<lambda>i. targeted (h (jobs ! i))) [0..<length jobs]"
    and "\<forall>r. r \<notin> (\<lambda>(j, job_id). jobs ! j) ` set sel \<longrightarrow> h' r = h r"
    and "i < length jobs" and "\<not> targeted (h (jobs ! i))"
  shows "h' (jobs ! i) = h (jobs ! i)"
proof -
  have "jobs ! i \<notin> (\<lambda>(j, job_id). jobs ! j) ` set sel"
  proof
    assume "jobs ! i \<in> (\<lambda>(j, job_id). jobs ! j) ` set sel"
    then obtain j job_id where m: "(j, job_id) \<in> set sel" and e: "jobs ! i = jobs ! j" by auto
    from m have "j \<in> set (map fst sel)" by force
    then have "targeted (h (jobs ! j))" using assms(1) by simp
    then show False using e assms(4) by simp
  qed
  then show ?thesis using assms(2) by blast
qed

lemma demo_scan: "scan_jobs demo_heap [0, 1, 2, 3] 0 [] = Inr [(0, ''1234567890''), (3, ''404'')]"
  by (simp add: demo_heap_def select_job_def dict_get_def py_str_def py_lower_def lower_char_def
      capitals_def smalls_def no_description_def truthy_def py_strip_def isspace_def whitespace_def
      job_url_of_def py_or_def extract_linkedin_job_id_def patterns_def match_at_def isdigit_def)

lemma demo_text_fields: "\<forall>r\<in>set [0, 1, 2, 3]. text_fields (heap (demo_state demo_heap) r)"
  by (simp add: demo_state_def demo_heap_def text_fields_def text_or_none_def)

lemma demo_state_simps [simp]:
  "heap (demo_state h) = h" "trace (demo_state h) = []" "world (demo_state h) = 0"
  by (simp_all add: demo_state_def)

text \<open>
  C1. For a list of posting records (records whose description and URL fields are texts,
  \<open>None\<close> or absent), the records selected for enrichment are exactly those whose
  \<open>site\<close> equals \<open>linkedin\<close> case-insensitively, whose description is empty or white
  space only, and whose URL field yields an identifier through
  \<open>extract_linkedin_job_id\<close>, in the order of the list; the fetcher is invoked once per
  selected record in that order (one request to the endpoint of each identifier); and
  every record that fails one of the three conditions is left as it was.
\<close>

theorem fetch_descriptions_for_jobs_targets:
  assumes "\<forall>r\<in>set jobs. text_fields (heap st r)"
  shows "\<exists>sel st'.
       scan_jobs (heap st) jobs 0 [] = Inr sel
     \<and> map fst sel = filter (\<lambda>i. targeted (heap st (jobs ! i))) [0..<length jobs]
     \<and> (\<forall>(i, job_id)\<in>set sel. yields_identifier (heap st (jobs ! i)) job_id)
     \<and> fetch_descriptions_for_jobs lib cb jobs st = Inr (jobs, st')
     \<and> http_gets (trace st') = http_gets (trace st) @ map (LINKEDIN_GUEST_API_URL \<circ> snd) sel
     \<and> (\<forall>i<length jobs. \<not> targeted (heap st (jobs ! i))
           \<longrightarrow> heap st' (jobs ! i) = heap st (jobs ! i))"
proof -
  from fetch_descriptions_for_jobs_spec [OF assms, of lib cb]
  obtain sel st' evs where
    a: "scan_jobs (heap st) jobs 0 [] = Inr sel"
    and b: "map fst sel = filter (\<lambda>i. targeted (heap st (jobs ! i))) [0..<length jobs]"
    and c: "\<forall>(j, job_id)\<in>set sel. j < length jobs \<and> yields_identifier (heap st (jobs ! j)) job_id
           \<and> job_id \<noteq> []"
    and d: "fetch_descriptions_for_jobs lib cb jobs st = Inr (jobs, st')"
    and e: "trace st' = trace st @ evs"
    and f: "http_gets evs = map (LINKEDIN_GUEST_API_URL \<circ> snd) sel"
    and g: "\<forall>r. r \<notin> (\<lambda>(j, job_id). jobs ! j) ` set sel \<longrightarrow> heap st' r = heap st r"
    by (elim exE conjE) (rule that, assumption+)
  have c': "\<forall>(i, job_id)\<in>set sel. yields_identifier (heap st (jobs ! i)) job_id"
    using c by auto
  have e': "http_gets (trace st') = http_gets (trace st) @ map (LINKEDIN_GUEST_API_URL \<circ> snd) sel"
    using e f by (simp add: http_gets_append)
  have h: "\<forall>i<length jobs. \<not> targeted (heap st (jobs ! i))
           \<longrightarrow> heap st' (jobs ! i) = heap st (jobs ! i)"
    using not_selected_untouched [OF b g] by blast
  show ?thesis by (intro exI [of _ sel] exI [of _ st'] conjI a b c' d e' h)
qed

theorem fetch_descriptions_for_jobs_targets_witness:
  "list_all (\<lambda>r. text_fields (demo_heap r)) [0, 1, 2, 3]
   \<and> filter (\<lambda>i. targeted (demo_heap ([0, 1, 2, 3] ! i))) [0..<4] = [0, 3]
   \<and> (\<exists>st'. fetch_descriptions_for_jobs demo_library None [0, 1, 2, 3] (demo_state demo_heap)
               = Inr ([0, 1, 2, 3], st')
          \<and> http_gets (trace st') =
              [LINKEDIN_GUEST_API_URL ''1234567890'', LINKEDIN_GUEST_API_URL ''404'']
          \<and> heap st' 1 = demo_heap 1 \<and> heap st' 2 = demo_heap 2)"
proof -
  let ?jobs = "[0, 1, 2, 3] :: ref list"
  from fetch_descriptions_for_jobs_targets [OF demo_text_fields, of demo_library None]
  obtain sel st' where
    a: "scan_jobs (heap (demo_state demo_heap)) ?jobs 0 [] = Inr sel"
    and b: "map fst sel = filter (\<lambda>i. targeted (heap (demo_state demo_heap) (?jobs ! i))) [0..<length ?jobs]"
    and d: "fetch_descriptions_for_jobs demo_library None ?jobs (demo_state demo_heap) = Inr (?jobs, st')"
    and e: "http_gets (trace st') = http_gets (trace (demo_state demo_heap))
         @ map (LINKEDIN_GUEST_API_URL \<circ> snd) sel"
    and h: "\<forall>i<length ?jobs. \<not> targeted (heap (demo_state demo_heap) (?jobs ! i))
           \<longrightarrow> heap st' (?jobs ! i) = heap (demo_state demo_heap) (?jobs ! i)"
    by (elim exE conjE) (rule that, assumption+)
  have sel: "sel = [(0, ''1234567890''), (3, ''404'')]" using a demo_scan by simp
  have b': "filter (\<lambda>i. targeted (demo_heap (?jobs ! i))) [0..<length ?jobs] = map fst sel"
    using b by (simp only: demo_state_simps)
  have l: "length ?jobs = 4" by simp
  have t: "filter (\<lambda>i. targeted (demo_heap (?jobs ! i))) [0..<4] = [0, 3]"
    unfolding l [symmetric] b' sel by simp
  have n: "\<not> targeted (demo_heap 1)" "\<not> targeted (demo_heap 2)"
    by (simp_all add: targeted_def description_blank_def site_is_linkedin_def caseless_equal_def
        demo_heap_def isspace_def whitespace_def py_str_def py_lower_def lower_char_def
        capitals_def smalls_def)
  have "heap st' (?jobs ! 1) = heap (demo_state demo_heap) (?jobs ! 1)"
    using h [rule_format, of 1] n by simp
  moreover have "heap st' (?jobs ! 2) = heap (demo_state demo_heap) (?jobs ! 2)"
    using h [rule_format, of 2] n by simp
  ultimately have u: "heap st' 1 = demo_heap 1" "heap st' 2 = demo_heap 2" by simp_all
  have g: "http_gets (trace st') =
      [LINKEDIN_GUEST_API_URL ''1234567890'', LINKEDIN_GUEST_API_URL ''404'']"
    using e sel by simp
  have "list_all (\<lambda>r. text_fields (demo_heap r)) ?jobs"
    using demo_text_fields by (simp add: list_all_iff)
  then show ?thesis using t d g u by blast
qed

text \<open>
  C5. \<open>fetch_descriptions_for_jobs\<close> returns the list it was given. In the heap it
  changes at most the \<open>description\<close> field, and only of records selected for enrichment:
  every other field of every record, and every record that is not selected, is as before.
  When the fetcher returns no result for every targeted identifier, no record changes at
  all, and the summary counts no record as fetched and all targeted ones as failed.
\<close>

theorem fetch_descriptions_for_jobs_frame:
  assumes "\<forall>r\<in>set jobs. text_fields (heap st r)"
  shows "\<exists>sel st'.
       scan_jobs (heap st) jobs 0 [] = Inr sel
     \<and> fetch_descriptions_for_jobs lib cb jobs st = Inr (jobs, st')
     \<and> (\<forall>r k. k \<noteq> ''description'' \<longrightarrow> heap st' r k = heap st r k)
     \<and> (\<forall>r. r \<notin> (\<lambda>(i, job_id). jobs ! i) ` set sel \<longrightarrow> heap st' r = heap st r)
     \<and> (\<forall>i<length jobs. i \<notin> fst ` set sel \<longrightarrow> heap st' (jobs ! i) = heap st (jobs ! i))
     \<and> ((\<forall>(i, job_id)\<in>set sel. \<forall>s. fst (fetch_linkedin_description lib job_id s) = Inr None)
          \<longrightarrow> heap st' = heap st
            \<and> (sel \<noteq> [] \<longrightarrow>
                 last (trace st') = Log INFO (Summary 0 (length sel) (length sel))))"
proof -
  from fetch_descriptions_for_jobs_spec [OF assms, of lib cb]
  obtain sel st' evs where
    a: "scan_jobs (heap st) jobs 0 [] = Inr sel"
    and b: "map fst sel = filter (\<lambda>i. targeted (heap st (jobs ! i))) [0..<length jobs]"
    and d: "fetch_descriptions_for_jobs lib cb jobs st = Inr (jobs, st')"
    and e: "trace st' = trace st @ evs"
    and hg: "http_gets evs = map (LINKEDIN_GUEST_API_URL \<circ> snd) sel"
    and g: "\<forall>r. r \<notin> (\<lambda>(j, job_id). jobs ! j) ` set sel \<longrightarrow> heap st' r = heap st r"
    and k: "\<forall>r k. k \<noteq> ''description'' \<longrightarrow> heap st' r k = heap st r k"
    and z: "sel = [] \<longrightarrow> st' = emit (Log INFO NoJobsNeedFetching) st"
    and s: "sel \<noteq> [] \<longrightarrow>
          (\<exists>fetched failed.
              last evs = Log INFO (Summary fetched failed (length sel))
            \<and> fetched + failed = length sel
            \<and> ((\<forall>(j, job_id)\<in>set sel. \<forall>s. no_result (fst (fetch_linkedin_description lib job_id s)))
                 \<longrightarrow> heap st' = heap st \<and> fetched = 0 \<and> failed = length sel))"
    by (elim exE conjE) (rule that, assumption+)
  have i: "\<forall>i<length jobs. i \<notin> fst ` set sel \<longrightarrow> heap st' (jobs ! i) = heap st (jobs ! i)"
  proof (intro allI impI)
    fix i
    assume l: "i < length jobs" and n: "i \<notin> fst ` set sel"
    have "fst ` set sel = set (map fst sel)" by simp
    then have "\<not> targeted (heap st (jobs ! i))" using n l b by simp
    then show "heap st' (jobs ! i) = heap st (jobs ! i)"
      using not_selected_untouched [OF b g l] by blast
  qed
  have f: "(\<forall>(i, job_id)\<in>set sel. \<forall>s. fst (fetch_linkedin_description lib job_id s) = Inr None)
          \<longrightarrow> heap st' = heap st
            \<and> (sel \<noteq> [] \<longrightarrow>
                 last (trace st') = Log INFO (Summary 0 (length sel) (length sel)))"
  proof
    assume n: "\<forall>(i, job_id)\<in>set sel. \<forall>s. fst (fetch_linkedin_description lib job_id s) = Inr None"
    then have n': "\<forall>(j, job_id)\<in>set sel. \<forall>s. no_result (fst (fetch_linkedin_description lib job_id s))"
      by (auto simp: no_result_def)
    show "heap st' = heap st
            \<and> (sel \<noteq> [] \<longrightarrow>
                 last (trace st') = Log INFO (Summary 0 (length sel) (length sel)))"
    proof (cases "sel = []")
      case True
      then show ?thesis using z by simp
    next
      case False
      with s n' obtain fetched failed where
        "last evs = Log INFO (Summary fetched failed (length sel))"
        "heap st' = heap st" "fetched = 0" "failed = length sel" by blast
      moreover have "evs \<noteq> []" using hg False by auto
      ultimately show ?thesis using e by simp
    qed
  qed
  show ?thesis by (intro exI [of _ sel] exI [of _ st'] conjI a d k g i f)
qed

lemma demo_fetch_404: "fst (fetch_linkedin_description demo_library ''404'' s) = Inr None"
proof -
  have "try_block demo_library ''404'' (LINKEDIN_GUEST_API_URL ''404'') s =
       (Inr None, emit (Log DEBUG (JobNotFound ''404''))
          ((emit (HttpGet (LINKEDIN_GUEST_API_URL ''404'')) s)\<lparr>world := Suc (world s)\<rparr>))"
    using try_block_404 [where st = s and job_id = "''404''", OF demo_get_simps(1)] by simp
  from fetch_linkedin_description_handlers [OF _ this] show ?thesis by simp
qed

lemma demo_scan_failing: "scan_jobs demo_heap [3, 1, 2] 0 [] = Inr [(0, ''404'')]"
  by (simp add: demo_heap_def select_job_def dict_get_def py_str_def py_lower_def lower_char_def
      capitals_def smalls_def no_description_def truthy_def py_strip_def isspace_def whitespace_def
      job_url_of_def py_or_def extract_linkedin_job_id_def patterns_def match_at_def isdigit_def)

theorem fetch_descriptions_for_jobs_frame_witness:
  "list_all (\<lambda>r. text_fields (demo_heap r)) [3, 1, 2]
   \<and> scan_jobs demo_heap [3, 1, 2] 0 [] = Inr [(0, ''404'')]
   \<and> (\<exists>st'. fetch_descriptions_for_jobs demo_library None [3, 1, 2] (demo_state demo_heap)
               = Inr ([3, 1, 2], st')
          \<and> heap st' = demo_heap
          \<and> last (trace st') = Log INFO (Summary 0 1 1))"
proof -
  let ?jobs = "[3, 1, 2] :: ref list"
  have tf: "\<forall>r\<in>set ?jobs. text_fields (heap (demo_state demo_heap) r)"
    by (simp add: demo_heap_def text_fields_def text_or_none_def)
  from fetch_descriptions_for_jobs_frame [OF tf, of demo_library None]
  obtain sel st' where
    a: "scan_jobs (heap (demo_state demo_heap)) ?jobs 0 [] = Inr sel"
    and d: "fetch_descriptions_for_jobs demo_library None ?jobs (demo_state demo_heap) = Inr (?jobs, st')"
    and f: "(\<forall>(i, job_id)\<in>set sel. \<forall>s. fst (fetch_linkedin_description demo_library job_id s) = Inr None)
          \<longrightarrow> heap st' = heap (demo_state demo_heap)
            \<and> (sel \<noteq> [] \<longrightarrow>
                 last (trace st') = Log INFO (Summary 0 (length sel) (length sel)))"
    by (elim exE conjE) (rule that, assumption+)
  have sel: "sel = [(0, ''404'')]" using a demo_scan_failing by simp
  have "\<forall>(i, job_id)\<in>set sel. \<forall>s. fst (fetch_linkedin_description demo_library job_id s) = Inr None"
    unfolding sel using demo_fetch_404 by simp
  with f sel have "heap st' = demo_heap" "last (trace st') = Log INFO (Summary 0 1 1)"
    by simp_all
  moreover have "list_all (\<lambda>r. text_fields (demo_heap r)) ?jobs"
    using tf by (simp add: list_all_iff)
  ultimately show ?thesis using d demo_scan_failing by blast
qed

lemma sleeps_are_pacing:
  "filter (\<lambda>e. e = Sleep) evs = filter (\<lambda>e. e = Sleep) (filter is_pacing evs)"
  by (induction evs) auto

text \<open>
  C7. In a run with \<open>n\<close> targeted items the requests and the pauses alternate: one pause
  behind every request but the last, so the pause is invoked \<open>n - 1\<close> times (no time
  when \<open>n = 0\<close>). When no item is targeted the list is returned as it is, nothing is
  fetched and there is no pause: the only effect is one log record.
\<close>

theorem fetch_descriptions_for_jobs_pacing:
  assumes "\<forall>r\<in>set jobs. text_fields (heap st r)"
  shows "\<exists>sel st' evs.
       scan_jobs (heap st) jobs 0 [] = Inr sel
     \<and> fetch_descriptions_for_jobs lib cb jobs st = Inr (jobs, st')
     \<and> trace st' = trace st @ evs
     \<and> filter is_pacing evs = between Sleep (map (HttpGet \<circ> LINKEDIN_GUEST_API_URL \<circ> snd) sel)
     \<and> length (filter (\<lambda>e. e = Sleep) evs) = length sel - 1
     \<and> (sel = [] \<longrightarrow> st' = emit (Log INFO NoJobsNeedFetching) st)"
proof -
  from fetch_descriptions_for_jobs_spec [OF assms, of lib cb]
  obtain sel st' evs where
    a: "scan_jobs (heap st) jobs 0 [] = Inr sel"
    and d: "fetch_descriptions_for_jobs lib cb jobs st = Inr (jobs, st')"
    and e: "trace st' = trace st @ evs"
    and p: "filter is_pacing evs = between Sleep (map (HttpGet \<circ> LINKEDIN_GUEST_API_URL \<circ> snd) sel)"
    and z: "sel = [] \<longrightarrow> st' = emit (Log INFO NoJobsNeedFetching) st"
    by (elim exE conjE) (rule that, assumption+)
  have "Sleep \<notin> set (map (HttpGet \<circ> LINKEDIN_GUEST_API_URL \<circ> snd) sel)" by auto
  from length_between [OF this]
  have c: "length (filter (\<lambda>e. e = Sleep) evs) = length sel - 1"
    using sleeps_are_pacing [of evs] p by simp
  show ?thesis by (intro exI [of _ sel] exI [of _ st'] exI [of _ evs] conjI a d e p c z)
qed

lemma demo_scan_none: "scan_jobs demo_heap [1, 2] 0 [] = Inr []"
  by (simp add: demo_heap_def select_job_def dict_get_def py_str_def py_lower_def lower_char_def
      capitals_def smalls_def no_description_def truthy_def py_strip_def isspace_def whitespace_def)

theorem fetch_descriptions_for_jobs_pacing_witness:
  "list_all (\<lambda>r. text_fields (demo_heap r)) [0, 1, 2, 3]
   \<and> (\<exists>st'. fetch_descriptions_for_jobs demo_library None [0, 1, 2, 3] (demo_state demo_heap)
               = Inr ([0, 1, 2, 3], st')
          \<and> filter is_pacing (trace st') =
              [HttpGet (LINKEDIN_GUEST_API_URL ''1234567890''), Sleep,
               HttpGet (LINKEDIN_GUEST_API_URL ''404'')]
          \<and> length (filter (\<lambda>e. e = Sleep) (trace st')) = 1)
   \<and> fetch_descriptions_for_jobs demo_library None [1, 2] (demo_state demo_heap)
       = Inr ([1, 2], \<lparr>world = 0, trace = [Log INFO NoJobsNeedFetching], heap = demo_heap\<rparr>)"
proof -
  let ?jobs = "[0, 1, 2, 3] :: ref list"
  from fetch_descriptions_for_jobs_pacing [OF demo_text_fields, of demo_library None]
  obtain sel st' evs where
    a: "scan_jobs (heap (demo_state demo_heap)) ?jobs 0 [] = Inr sel"
    and d: "fetch_descriptions_for_jobs demo_library None ?jobs (demo_state demo_heap) = Inr (?jobs, st')"
    and e: "trace st' = trace (demo_state demo_heap) @ evs"
    and p: "filter is_pacing evs = between Sleep (map (HttpGet \<circ> LINKEDIN_GUEST_API_URL \<circ> snd) sel)"
    and c: "length (filter (\<lambda>e. e = Sleep) evs) = length sel - 1"
    by (elim exE conjE) (rule that, assumption+)
  have sel: "sel = [(0, ''1234567890''), (3, ''404'')]" using a demo_scan by simp
  have p': "filter is_pacing (trace st') =
              [HttpGet (LINKEDIN_GUEST_API_URL ''1234567890''), Sleep,
               HttpGet (LINKEDIN_GUEST_API_URL ''404'')]"
    using e p sel by simp
  have c': "length (filter (\<lambda>e. e = Sleep) (trace st')) = 1" using e c sel by simp
  have tf2: "\<forall>r\<in>set [1, 2]. text_fields (heap (demo_state demo_heap) r)"
    by (simp add: demo_heap_def text_fields_def text_or_none_def)
  from fetch_descriptions_for_jobs_pacing [OF tf2, of demo_library None]
  obtain sel2 st2 where
    a2: "scan_jobs (heap (demo_state demo_heap)) [1, 2] 0 [] = Inr sel2"
    and d2: "fetch_descriptions_for_jobs demo_library None [1, 2] (demo_state demo_heap) = Inr ([1, 2], st2)"
    and z2: "sel2 = [] \<longrightarrow> st2 = emit (Log INFO NoJobsNeedFetching) (demo_state demo_heap)"
    by (elim exE conjE) (rule that, assumption+)
  have "sel2 = []" using a2 demo_scan_none by simp
  then have "st2 = \<lparr>world = 0, trace = [Log INFO NoJobsNeedFetching], heap = demo_heap\<rparr>"
    using z2 by (simp add: emit_def demo_state_def)
  then have n: "fetch_descriptions_for_jobs demo_library None [1, 2] (demo_state demo_heap)
       = Inr ([1, 2], \<lparr>world = 0, trace = [Log INFO NoJobsNeedFetching], heap = demo_heap\<rparr>)"
    using d2 by simp
  have "list_all (\<lambda>r. text_fields (demo_heap r)) ?jobs"
    using demo_text_fields by (simp add: list_all_iff)
  then show ?thesis using d p' c' n by blast
qed

text \<open>
  C8. With a progress callback, the callback is invoked once per targeted item, with the
  1-based position and the number of targeted items. An exception it raises is caught
  and logged at level \<open>DEBUG\<close>; whatever the callback does, the run returns the list, and
  the requests made are those of a run without callback.
\<close>

theorem fetch_descriptions_for_jobs_progress:
  assumes "\<forall>r\<in>set jobs. text_fields (heap st r)"
  shows "\<exists>sel st' evs.
       scan_jobs (heap st) jobs 0 [] = Inr sel
     \<and> fetch_descriptions_for_jobs lib (Some f) jobs st = Inr (jobs, st')
     \<and> trace st' = trace st @ evs
     \<and> filter is_progress evs = map (\<lambda>k. Progress (Suc k) (length sel)) [0..<length sel]
     \<and> http_gets evs = map (LINKEDIN_GUEST_API_URL \<circ> snd) sel
     \<and> (\<exists>st0 evs0. fetch_descriptions_for_jobs lib None jobs st = Inr (jobs, st0)
            \<and> trace st0 = trace st @ evs0 \<and> http_gets evs0 = http_gets evs)
     \<and> (\<forall>k n s e w. f k n (world s) = (Some e, w) \<longrightarrow>
            report_progress (Some f) k n s =
              s\<lparr>world := w,
                trace := trace s @ [Progress k n, Log DEBUG (ProgressCallbackError e)]\<rparr>)
     \<and> (\<forall>k n s w. f k n (world s) = (None, w) \<longrightarrow>
            report_progress (Some f) k n s = s\<lparr>world := w, trace := trace s @ [Progress k n]\<rparr>)"
proof -
  from fetch_descriptions_for_jobs_spec [OF assms, of lib "Some f"]
  obtain sel st' evs where
    a: "scan_jobs (heap st) jobs 0 [] = Inr sel"
    and d: "fetch_descriptions_for_jobs lib (Some f) jobs st = Inr (jobs, st')"
    and e: "trace st' = trace st @ evs"
    and g: "http_gets evs = map (LINKEDIN_GUEST_API_URL \<circ> snd) sel"
    and q: "filter is_progress evs =
          (case Some f of None \<Rightarrow> []
           | Some f \<Rightarrow> map (\<lambda>k. Progress (Suc k) (length sel)) [0..<length sel])"
    by (elim exE conjE) (rule that, assumption+)
  from fetch_descriptions_for_jobs_spec [OF assms, of lib None]
  obtain sel0 st0 evs0 where
    a0: "scan_jobs (heap st) jobs 0 [] = Inr sel0"
    and d0: "fetch_descriptions_for_jobs lib None jobs st = Inr (jobs, st0)"
    and e0: "trace st0 = trace st @ evs0"
    and g0: "http_gets evs0 = map (LINKEDIN_GUEST_API_URL \<circ> snd) sel0"
    by (elim exE conjE) (rule that, assumption+)
  have "sel0 = sel" using a a0 by simp
  then have n: "\<exists>st0 evs0. fetch_descriptions_for_jobs lib None jobs st = Inr (jobs, st0)
            \<and> trace st0 = trace st @ evs0 \<and> http_gets evs0 = http_gets evs"
    using d0 e0 g0 g by auto
  have q': "filter is_progress evs = map (\<lambda>k. Progress (Suc k) (length sel)) [0..<length sel]"
    using q by simp
  have r1: "\<forall>k n s e w. f k n (world s) = (Some e, w) \<longrightarrow>
            report_progress (Some f) k n s =
              s\<lparr>world := w,
                trace := trace s @ [Progress k n, Log DEBUG (ProgressCallbackError e)]\<rparr>"
    using report_progress_Some [of f] by fastforce
  have r2: "\<forall>k n s w. f k n (world s) = (None, w) \<longrightarrow>
            report_progress (Some f) k n s = s\<lparr>world := w, trace := trace s @ [Progress k n]\<rparr>"
    using report_progress_Some [of f] by fastforce
  show ?thesis by (intro exI [of _ sel] exI [of _ st'] exI [of _ evs] conjI a d e q' g n r1 r2)
qed

theorem fetch_descriptions_for_jobs_progress_witness:
  "list_all (\<lambda>r. text_fields (demo_heap r)) [0, 1, 2, 3]
   \<and> demo_callback 1 2 0 = (Some OtherError, 0)
   \<and> report_progress (Some demo_callback) 1 2 (demo_state demo_heap)
       = \<lparr>world = 0, trace = [Progress 1 2, Log DEBUG (ProgressCallbackError OtherError)],
          heap = demo_heap\<rparr>
   \<and> (\<exists>st'. fetch_descriptions_for_jobs demo_library (Some demo_callback) [0, 1, 2, 3]
               (demo_state demo_heap) = Inr ([0, 1, 2, 3], st')
          \<and> filter is_progress (trace st') = [Progress 1 2, Progress 2 2]
          \<and> http_gets (trace st') =
              [LINKEDIN_GUEST_API_URL ''1234567890'', LINKEDIN_GUEST_API_URL ''404''])"
proof -
  let ?jobs = "[0, 1, 2, 3] :: ref list"
  from fetch_descriptions_for_jobs_progress [OF demo_text_fields, of demo_library demo_callback]
  obtain sel st' evs where
    a: "scan_jobs (heap (demo_state demo_heap)) ?jobs 0 [] = Inr sel"
    and d: "fetch_descriptions_for_jobs demo_library (Some demo_callback) ?jobs (demo_state demo_heap)
              = Inr (?jobs, st')"
    and e: "trace st' = trace (demo_state demo_heap) @ evs"
    and q: "filter is_progress evs = map (\<lambda>k. Progress (Suc k) (length sel)) [0..<length sel]"
    and g: "http_gets evs = map (LINKEDIN_GUEST_API_URL \<circ> snd) sel"
    and r1: "\<forall>k n s e w. demo_callback k n (world s) = (Some e, w) \<longrightarrow>
            report_progress (Some demo_callback) k n s =
              s\<lparr>world := w,
                trace := trace s @ [Progress k n, Log DEBUG (ProgressCallbackError e)]\<rparr>"
    by (elim exE conjE) (rule that, assumption+)
  have sel: "sel = [(0, ''1234567890''), (3, ''404'')]" using a demo_scan by simp
  have l: "[0..<length sel] = [0, 1]" unfolding sel by (simp add: upt_conv_Cons)
  have q': "filter is_progress (trace st') = [Progress 1 2, Progress 2 2]"
    using e q unfolding l by (simp add: sel)
  have g': "http_gets (trace st') =
      [LINKEDIN_GUEST_API_URL ''1234567890'', LINKEDIN_GUEST_API_URL ''404'']"
    using e g sel by simp
  have c: "demo_callback 1 2 (world (demo_state demo_heap)) = (Some OtherError, 0)"
    by (simp add: demo_callback_def)
  from r1 [rule_format, OF c]
  have r: "report_progress (Some demo_callback) 1 2 (demo_state demo_heap)
       = \<lparr>world = 0, trace = [Progress 1 2, Log DEBUG (ProgressCallbackError OtherError)],
          heap = demo_heap\<rparr>"
    by (simp add: demo_state_def)
  have "list_all (\<lambda>r. text_fields (demo_heap r)) ?jobs"
    using demo_text_fields by (simp add: list_all_iff)
  moreover have "demo_callback 1 2 0 = (Some OtherError, 0)" by (simp add: demo_callback_def)
  ultimately show ?thesis using r d q' g' by blast
qed

lemma no_description_blank:
  "description_blank d \<Longrightarrow> no_description (dict_get d ''description'' (PStr [])) = Inr True"
proof (cases "d ''description''")
  case None
  then show ?thesis by (simp add: no_description_def dict_get_def truthy_def)
next
  case (Some v)
  assume "description_blank d"
  then show ?thesis using Some
    by (cases v)
      (auto simp: no_description_def dict_get_def description_blank_def truthy_def
        py_strip_empty_iff list_all_iff)
qed

lemma select_job_blank_linkedin:
  assumes "site_is_linkedin d" and "description_blank d"
  shows "select_job d = extract_linkedin_job_id (job_url_of d)"
proof (cases "extract_linkedin_job_id (job_url_of d)")
  case (Inl e)
  then show ?thesis using assms no_description_blank [of d]
    by (simp add: select_job_def site_test)
next
  case (Inr x)
  then show ?thesis using assms no_description_blank [of d] extract_nonempty [of "job_url_of d"]
    by (cases x) (simp_all add: select_job_def site_test)
qed

text \<open>
  C9. The \<open>link\<close> key takes precedence over \<open>job_url\<close>. When the value of \<open>link\<close> is a
  non-empty text, the URL of the record is that text and the identifier is extracted
  from it, whatever \<open>job_url\<close> holds; when \<open>link\<close> is missing or empty (the empty text or
  \<open>None\<close>), the value of \<open>job_url\<close> is used.
\<close>

theorem link_takes_precedence:
  "(\<forall>l. job ''link'' = Some (PStr l) \<and> l \<noteq> [] \<longrightarrow>
        job_url_of job = PStr l
      \<and> (site_is_linkedin job \<and> description_blank job \<longrightarrow>
           select_job job = extract_linkedin_job_id (PStr l)))
   \<and> (job ''link'' = None \<or> job ''link'' = Some (PStr []) \<or> job ''link'' = Some PNone \<longrightarrow>
        job_url_of job = dict_get job ''job_url'' (PStr [])
      \<and> (site_is_linkedin job \<and> description_blank job \<longrightarrow>
           select_job job = extract_linkedin_job_id (dict_get job ''job_url'' (PStr []))))"
proof (intro conjI allI impI)
  fix l
  assume a: "job ''link'' = Some (PStr l) \<and> l \<noteq> []"
  then show u: "job_url_of job = PStr l"
    by (simp add: job_url_of_def py_or_def dict_get_def truthy_def)
  assume "site_is_linkedin job \<and> description_blank job"
  then show "select_job job = extract_linkedin_job_id (PStr l)"
    using select_job_blank_linkedin [of job] u by simp
next
  assume a: "job ''link'' = None \<or> job ''link'' = Some (PStr []) \<or> job ''link'' = Some PNone"
  then show u: "job_url_of job = dict_get job ''job_url'' (PStr [])"
    by (auto simp: job_url_of_def py_or_def dict_get_def truthy_def)
  assume "site_is_linkedin job \<and> description_blank job"
  then show "select_job job = extract_linkedin_job_id (dict_get job ''job_url'' (PStr []))"
    using select_job_blank_linkedin [of job] u by simp
qed

theorem link_takes_precedence_witness:
  "demo_heap 3 ''link'' = Some (PStr ''https://www.linkedin.com/jobs/search/?currentJobId=404'')
   \<and> demo_heap 3 ''job_url'' = Some (PStr ''https://www.linkedin.com/jobs/view/1234567890/'')
   \<and> site_is_linkedin (demo_heap 3) \<and> description_blank (demo_heap 3)
   \<and> select_job (demo_heap 3) = Inr (Some ''404'')
   \<and> demo_heap 0 ''link'' = None
   \<and> job_url_of (demo_heap 0) = PStr ''https://www.linkedin.com/jobs/view/1234567890/''"
proof -
  let ?l = "''https://www.linkedin.com/jobs/search/?currentJobId=404''"
  have a: "demo_heap 3 ''link'' = Some (PStr ?l)"
    and b: "demo_heap 3 ''job_url'' = Some (PStr ''https://www.linkedin.com/jobs/view/1234567890/'')"
    and c: "demo_heap 0 ''link'' = None"
    and c': "dict_get (demo_heap 0) ''job_url'' (PStr []) =
        PStr ''https://www.linkedin.com/jobs/view/1234567890/''"
    by (simp_all add: demo_heap_def dict_get_def)
  have s: "site_is_linkedin (demo_heap 3)"
    by (simp add: site_is_linkedin_def caseless_equal_def demo_heap_def py_str_def py_lower_def
        lower_char_def capitals_def smalls_def)
  have d: "description_blank (demo_heap 3)"
    by (simp add: description_blank_def demo_heap_def)
  have x: "extract_linkedin_job_id (PStr ?l) = Inr (Some ''404'')"
    by (simp add: extract_linkedin_job_id_def truthy_def patterns_def match_at_def isdigit_def)
  have "select_job (demo_heap 3) = extract_linkedin_job_id (PStr ?l)"
    using link_takes_precedence [of "demo_heap 3"] a s d by simp
  then have e: "select_job (demo_heap 3) = Inr (Some ''404'')" using x by simp
  have f: "job_url_of (demo_heap 0) = PStr ''https://www.linkedin.com/jobs/view/1234567890/''"
    using link_takes_precedence [of "demo_heap 0"] c c' by simp
  show ?thesis using a b c s d e f by simp
qed

text \<open>
  C10. When the fetcher returns the empty text for a targeted record, the round of the
  loop for that record counts it as failed: the failed counter goes up by one, the
  fetched counter stays, and no record is written. In a run in which the fetcher
  returns the empty text for every targeted identifier, the heap is unchanged and the
  summary counts every targeted item as failed.
\<close>

theorem empty_description_counts_as_failed:
  "(\<forall>st2. fetch_linkedin_description lib job_id (report_progress cb (idx + 1) n st)
             = (Inr (Some []), st2) \<longrightarrow>
        fetch_one lib cb jobs n idx (job_index, job_id) (st, fetched, failed)
          = Inr (if idx < n - 1 then emit Sleep st2 else st2, fetched, failed + 1)
      \<and> heap st2 = heap st)
   \<and> ((\<forall>r\<in>set jobs. text_fields (heap st r)) \<longrightarrow>
        (\<exists>sel st'.
            scan_jobs (heap st) jobs 0 [] = Inr sel
          \<and> fetch_descriptions_for_jobs lib cb jobs st = Inr (jobs, st')
          \<and> ((\<forall>(i, job_id)\<in>set sel. \<forall>s. fst (fetch_linkedin_description lib job_id s) = Inr (Some []))
               \<longrightarrow> heap st' = heap st
                 \<and> (sel \<noteq> [] \<longrightarrow>
                      last (trace st') = Log INFO (Summary 0 (length sel) (length sel))))))"
proof (intro conjI allI impI)
  fix st2
  assume f: "fetch_linkedin_description lib job_id (report_progress cb (idx + 1) n st)
             = (Inr (Some []), st2)"
  from fetch_one_unfold [OF f, of jobs job_index fetched failed]
  show "fetch_one lib cb jobs n idx (job_index, job_id) (st, fetched, failed)
          = Inr (if idx < n - 1 then emit Sleep st2 else st2, fetched, failed + 1)"
    by simp
  have "job_id \<noteq> []" using f by (auto simp: fetch_linkedin_description_def)
  from fetch_linkedin_description_frame [OF f this]
  have "heap st2 = heap (report_progress cb (idx + 1) n st)" by simp
  then show "heap st2 = heap st" using report_progress_frame [of cb "idx + 1" n st] by simp
next
  assume tf: "\<forall>r\<in>set jobs. text_fields (heap st r)"
  from fetch_descriptions_for_jobs_spec [OF tf, of lib cb]
  obtain sel st' evs where
    a: "scan_jobs (heap st) jobs 0 [] = Inr sel"
    and d: "fetch_descriptions_for_jobs lib cb jobs st = Inr (jobs, st')"
    and e: "trace st' = trace st @ evs"
    and hg: "http_gets evs = map (LINKEDIN_GUEST_API_URL \<circ> snd) sel"
    and z: "sel = [] \<longrightarrow> st' = emit (Log INFO NoJobsNeedFetching) st"
    and s: "sel \<noteq> [] \<longrightarrow>
          (\<exists>fetched failed.
              last evs = Log INFO (Summary fetched failed (length sel))
            \<and> fetched + failed = length sel
            \<and> ((\<forall>(j, job_id)\<in>set sel. \<forall>s. no_result (fst (fetch_linkedin_description lib job_id s)))
                 \<longrightarrow> heap st' = heap st \<and> fetched = 0 \<and> failed = length sel))"
    by (elim exE conjE) (rule that, assumption+)
  have f: "(\<forall>(i, job_id)\<in>set sel. \<forall>s. fst (fetch_linkedin_description lib job_id s) = Inr (Some []))
               \<longrightarrow> heap st' = heap st
                 \<and> (sel \<noteq> [] \<longrightarrow>
                      last (trace st') = Log INFO (Summary 0 (length sel) (length sel)))"
  proof
    assume n: "\<forall>(i, job_id)\<in>set sel. \<forall>s. fst (fetch_linkedin_description lib job_id s) = Inr (Some [])"
    then have n': "\<forall>(j, job_id)\<in>set sel. \<forall>s. no_result (fst (fetch_linkedin_description lib job_id s))"
      by (auto simp: no_result_def)
    show "heap st' = heap st
            \<and> (sel \<noteq> [] \<longrightarrow>
                 last (trace st') = Log INFO (Summary 0 (length sel) (length sel)))"
    proof (cases "sel = []")
      case True
      then show ?thesis using z by simp
    next
      case False
      with s n' obtain fetched failed where
        "last evs = Log INFO (Summary fetched failed (length sel))"
        "heap st' = heap st" "fetched = 0" "failed = length sel" by blast
      moreover have "evs \<noteq> []" using hg False by auto
      ultimately show ?thesis using e by simp
    qed
  qed
  show "\<exists>sel st'.
            scan_jobs (heap st) jobs 0 [] = Inr sel
          \<and> fetch_descriptions_for_jobs lib cb jobs st = Inr (jobs, st')
          \<and> ((\<forall>(i, job_id)\<in>set sel. \<forall>s. fst (fetch_linkedin_description lib job_id s) = Inr (Some []))
               \<longrightarrow> heap st' = heap st
                 \<and> (sel \<noteq> [] \<longrightarrow>
                      last (trace st') = Log INFO (Summary 0 (length sel) (length sel))))"
    by (intro exI [of _ sel] exI [of _ st'] conjI a d f)
qed

lemma demo_fetch_555:
  "fetch_linkedin_description demo_library ''555'' s =
     (Inr (Some []),
      s\<lparr>world := Suc (world s),
        trace := trace s @
          [HttpGet (LINKEDIN_GUEST_API_URL ''555''), Parse blank_page,
           Find ''show-more-less-html__markup'', Find ''description__text'',
           Find ''job-description'', Find ''description'']\<rparr>)"
proof -
  have c: "return_cleaned demo_library blank_page = Inr (Some [])"
    by (simp add: return_cleaned_def clean_html_text_def demo_library_def demo_get_text_def
        demo_page_def blank_page_def clean_lines_def newline_def py_split_def isspace_def
        whitespace_def py_strip_def)
  have f: "soup_find demo_library blank_page ''show-more-less-html__markup'' = Inr None"
    "soup_find demo_library blank_page ''description__text'' = Inr None"
    "soup_find demo_library blank_page ''job-description'' = Inr None"
    "soup_find demo_library blank_page ''description'' = Inr (Some blank_page)"
    by (simp_all add: demo_library_def demo_find_def demo_page_def blank_page_def)
  have p: "BeautifulSoup demo_library blank_page = Inr blank_page" by (simp add: demo_library_def)
  have fb: "try_fallbacks demo_library blank_page ''555'' fallback_selectors t =
      (Inr (Some []), emit (Find ''description'') (emit (Find ''job-description'')
          (emit (Find ''description__text'') t)))" for t :: "nat state"
    using c f by (simp add: fallback_selectors_def)
  have "try_block demo_library ''555'' (LINKEDIN_GUEST_API_URL ''555'') s =
     (Inr (Some []),
      s\<lparr>world := Suc (world s),
        trace := trace s @
          [HttpGet (LINKEDIN_GUEST_API_URL ''555''), Parse blank_page,
           Find ''show-more-less-html__markup'', Find ''description__text'',
           Find ''job-description'', Find ''description'']\<rparr>)"
    using try_block_200 [where st = s and job_id = "''555''", OF demo_get_simps(6)] p f fb
    by (simp add: emit_def)
  from fetch_linkedin_description_handlers [OF _ this] show ?thesis by simp
qed

lemma demo_scan_blank: "scan_jobs demo_heap [4] 0 [] = Inr [(0, ''555'')]"
  by (simp add: demo_heap_def select_job_def dict_get_def py_str_def py_lower_def lower_char_def
      capitals_def smalls_def no_description_def truthy_def py_strip_def isspace_def whitespace_def
      job_url_of_def py_or_def extract_linkedin_job_id_def patterns_def match_at_def isdigit_def)

theorem empty_description_counts_as_failed_witness:
  "fst (fetch_linkedin_description demo_library ''555'' (demo_state demo_heap)) = Inr (Some [])
   \<and> fetch_one demo_library None [4] 1 0 (0, ''555'') (demo_state demo_heap, 0, 0)
       = Inr (snd (fetch_linkedin_description demo_library ''555'' (demo_state demo_heap)), 0, 1)
   \<and> heap (snd (fetch_linkedin_description demo_library ''555'' (demo_state demo_heap))) = demo_heap
   \<and> text_fields (demo_heap 4)
   \<and> (\<exists>st'. fetch_descriptions_for_jobs demo_library None [4] (demo_state demo_heap)
               = Inr ([4], st')
          \<and> heap st' = demo_heap
          \<and> last (trace st') = Log INFO (Summary 0 1 1))"
proof -
  let ?st = "demo_state demo_heap"
  let ?st2 = "snd (fetch_linkedin_description demo_library ''555'' ?st)"
  note t = empty_description_counts_as_failed [of demo_library "''555''" None 0 1 ?st "[4]" 0 0 0]
  have f: "fetch_linkedin_description demo_library ''555'' (report_progress None (0 + 1) 1 ?st)
      = (Inr (Some []), ?st2)"
    by (simp add: demo_fetch_555)
  from t f have a: "fetch_one demo_library None [4] 1 0 (0, ''555'') (?st, 0, 0) = Inr (?st2, 0, 1)"
    and b: "heap ?st2 = demo_heap" by simp_all
  have tf: "\<forall>r\<in>set [4]. text_fields (heap ?st r)"
    by (simp add: demo_heap_def text_fields_def text_or_none_def)
  with t obtain sel st' where
    s: "scan_jobs (heap ?st) [4] 0 [] = Inr sel"
    and d: "fetch_descriptions_for_jobs demo_library None [4] ?st = Inr ([4], st')"
    and e: "(\<forall>(i, job_id)\<in>set sel. \<forall>s. fst (fetch_linkedin_description demo_library job_id s) = Inr (Some []))
               \<longrightarrow> heap st' = heap ?st
                 \<and> (sel \<noteq> [] \<longrightarrow>
                      last (trace st') = Log INFO (Summary 0 (length sel) (length sel)))"
    by blast
  have sel: "sel = [(0, ''555'')]" using s demo_scan_blank by simp
  have "\<forall>(i, job_id)\<in>set sel. \<forall>s. fst (fetch_linkedin_description demo_library job_id s) = Inr (Some [])"
    unfolding sel by (simp add: demo_fetch_555)
  with e sel have g: "heap st' = demo_heap" "last (trace st') = Log INFO (Summary 0 1 1)"
    by simp_all
  have "fst (fetch_linkedin_description demo_library ''555'' ?st) = Inr (Some [])"
    by (simp add: demo_fetch_555)
  moreover have "text_fields (demo_heap 4)" using tf by simp
  ultimately show ?thesis using a b d g by blast
qed

section \<open>Properties of the text normalizer\<close>

lemma isspace_space [simp]: "isspace CHR '' ''"
  by (simp add: isspace_def whitespace_def)

lemma isspace_newline [simp]: "isspace newline"
  by (simp add: isspace_def whitespace_def newline_def)

lemma space_not_newline [simp]: "CHR '' '' \<noteq> newline" "newline \<noteq> CHR '' ''"
  by (simp_all add: newline_def)

subsection \<open>Splitting into words\<close>

lemma split_words_no_space:
  "\<forall>c\<in>set u. \<not> isspace c \<Longrightarrow> split_words w (u @ r) = split_words (w @ u) r"
  by (induction u arbitrary: w) simp_all

lemma split_words_leading_space: "isspace c \<Longrightarrow> split_words [] (c # s) = split_words [] s"
  by simp




lemma py_join_Cons: "ys \<noteq> [] \<Longrightarrow> py_join sep (x # ys) = x @ sep @ py_join sep ys"
  by (cases ys) simp_all

lemma split_words_join:
  "ws \<noteq> [] \<Longrightarrow> list_all word ws \<Longrightarrow> split_words [] (py_join '' '' ws) = ws"
proof (induction ws rule: list_nonempty_induct)
  case (single x)
  then have "split_words [] (x @ []) = split_words ([] @ x) []"
    by (intro split_words_no_space) (simp add: word_def)
  then show ?case using single by (simp add: word_def)
next
  case (cons x ys)
  then have x: "\<forall>c\<in>set x. \<not> isspace c" "x \<noteq> []" by (simp_all add: word_def)
  have "split_words [] (x @ '' '' @ py_join '' '' ys)
      = split_words ([] @ x) ('' '' @ py_join '' '' ys)"
    using x by (intro split_words_no_space) simp
  also have "\<dots> = x # split_words [] (py_join '' '' ys)" using x by simp
  also have "\<dots> = x # ys" using cons by simp
  finally show ?case using cons by (simp add: py_join_Cons)
qed

lemma py_split_join: "ws \<noteq> [] \<Longrightarrow> list_all word ws \<Longrightarrow> py_split (py_join '' '' ws) = ws"
  by (simp add: py_split_def split_words_join)

lemma join_words_nonempty: "ws \<noteq> [] \<Longrightarrow> list_all word ws \<Longrightarrow> py_join '' '' ws \<noteq> []"
  by (induction ws rule: list_nonempty_induct) (simp_all add: word_def py_join_Cons)

lemma join_words_chars:
  "ws \<noteq> [] \<Longrightarrow> list_all word ws \<Longrightarrow> c \<in> set (py_join '' '' ws) \<Longrightarrow>
     c = CHR '' '' \<or> \<not> isspace c"
  by (induction ws rule: list_nonempty_induct) (auto simp: word_def py_join_Cons)

lemma join_words_ends:
  "ws \<noteq> [] \<Longrightarrow> list_all word ws \<Longrightarrow>
     \<not> isspace (hd (py_join '' '' ws)) \<and> \<not> isspace (last (py_join '' '' ws))"
proof (induction ws rule: list_nonempty_induct)
  case (single x)
  then show ?case by (simp add: word_def)
next
  case (cons x ys)
  then have "py_join '' '' ys \<noteq> []" by (intro join_words_nonempty) simp_all
  then show ?case using cons by (simp add: word_def py_join_Cons)
qed

lemma clean_line_props:
  assumes "clean_line l"
  shows "l \<noteq> []" and "newline \<notin> set l" and "\<not> isspace (hd l)" and "\<not> isspace (last l)"
    and "py_join '' '' (py_split l) = l"
proof -
  from assms obtain ws where ws: "ws \<noteq> []" "list_all word ws" "l = py_join '' '' ws"
    unfolding clean_line_def by blast
  show "l \<noteq> []" using ws join_words_nonempty by simp
  show "newline \<notin> set l" using ws join_words_chars [of ws newline] by auto
  show "\<not> isspace (hd l)" "\<not> isspace (last l)" using ws join_words_ends by simp_all
  show "py_join '' '' (py_split l) = l" using ws py_split_join by simp
qed

subsection \<open>Splitting into lines\<close>

lemma py_split_on_nonempty [simp]: "py_split_on sep s \<noteq> []"
  by (induction s) (auto split: list.splits)

lemma py_split_on_Cons_other:
  "c \<noteq> sep \<Longrightarrow> py_split_on sep (c # s) = (c # hd (py_split_on sep s)) # tl (py_split_on sep s)"
  by (cases "py_split_on sep s") simp_all





subsection \<open>The lines kept\<close>












lemma py_strip_id:
  assumes "t = [] \<or> (\<not> isspace (hd t) \<and> \<not> isspace (last t))"
  shows "py_strip t = t"
proof (cases "t = []")
  case True
  then show ?thesis by (simp add: py_strip_def)
next
  case False
  then have h: "\<not> isspace (hd t)" and l: "\<not> isspace (last t)" using assms by simp_all
  have a: "dropWhile isspace t = t" using False h by (cases t) simp_all
  obtain xs x where t: "t = xs @ [x]" using False by (cases t rule: rev_exhaust) simp_all
  then have b: "dropWhile isspace (rev t) = rev t" using l by simp
  show ?thesis by (simp add: py_strip_def a b)
qed

lemma join_lines_ends:
  "ls \<noteq> [] \<Longrightarrow> list_all clean_line ls \<Longrightarrow>
     py_join [newline] ls \<noteq> []
     \<and> \<not> isspace (hd (py_join [newline] ls)) \<and> \<not> isspace (last (py_join [newline] ls))"
proof (induction ls rule: list_nonempty_induct)
  case (single l)
  then show ?case using clean_line_props [of l] by simp
next
  case (cons l ls)
  then show ?case using clean_line_props [of l] by (simp add: py_join_Cons)
qed

lemma clean_text_strip: "clean_text t \<Longrightarrow> py_strip t = t"
proof -
  assume "clean_text t"
  then obtain ls where ls: "list_all clean_line ls" "t = py_join [newline] ls"
    unfolding clean_text_def by blast
  show ?thesis
  proof (cases "ls = []")
    case True
    then show ?thesis using ls by (simp add: py_strip_def)
  next
    case False
    from join_lines_ends [OF False ls(1)] show ?thesis using ls by (intro py_strip_id) simp
  qed
qed




subsection \<open>The characters of the result\<close>








lemma clean_text_not_blank: "clean_text t \<Longrightarrow> t \<noteq> [] \<Longrightarrow> \<not> list_all isspace t"
proof
  assume c: "clean_text t" and n: "t \<noteq> []" and b: "list_all isspace t"
  from b have "py_strip t = []" by (simp add: py_strip_empty_iff list_all_iff)
  then show False using clean_text_strip [OF c] n by simp
qed

subsection \<open>The normalizer on plain text\<close>









end
